theory Spec2Isabelle
  imports Main "HOL-Library.Multiset" "HOL-Library.Sublist"
begin

section \<open>Values read from the session logs\<close>

text \<open>
  A log line that parses is a JSON value. JavaScript's \<open>undefined\<close> is the \<open>None\<close> of
  \<open>json option\<close>. Token counters are whole numbers in the logs, so a finite number is an
  \<open>int\<close> (double arithmetic is exact on integers below \<open>2^53\<close>); \<open>JNonFinite\<close> is a
  literal such as \<open>1e999\<close>, which \<open>JSON.parse\<close> reads as \<open>Infinity\<close>. Strings are
  \<open>char\<close> lists.
\<close>

datatype json =
    JNull
  | JBool bool
  | JNum int
  | JNonFinite
  | JStr string
  | JArr "json list"
  | JObj "(string \<times> json) list"

text \<open>A JavaScript number that may be \<open>NaN\<close>: the time value of a \<open>Date\<close>, a
  comparator's result.\<close>

datatype jsnum = Num int | NaN

text \<open>
  What the collector takes from the JavaScript runtime rather than from its own code:
  \<open>new Date(v).getTime()\<close>, the local calendar fields of a valid time value (year,
  month index from 0, day of month), \<open>String.prototype.localeCompare\<close> and
  \<open>JSON.stringify\<close>.
\<close>

record runtime =
  dateParse :: "json \<Rightarrow> jsnum"
  localDate :: "int \<Rightarrow> int \<times> int \<times> int"
  localeCompare :: "string \<Rightarrow> string \<Rightarrow> int"
  stringify :: "json \<Rightarrow> string"

text \<open>\<open>v?.k\<close> and \<open>v.k\<close> for the fixed keys the collector reads: only an object has
  them, and \<open>JSON.parse\<close> keeps the last of duplicated keys.\<close>

fun field :: "json option \<Rightarrow> string \<Rightarrow> json option" where
  "field (Some (JObj kvs)) k = map_of (rev kvs) k"
| "field _ k = None"

text \<open>JavaScript truthiness, as in \<open>if (cwd)\<close> and \<open>if (!timestamp)\<close>.\<close>

fun truthy :: "json option \<Rightarrow> bool" where
  "truthy None = False"
| "truthy (Some JNull) = False"
| "truthy (Some (JBool b)) = b"
| "truthy (Some (JNum n)) = (n \<noteq> 0)"
| "truthy (Some JNonFinite) = True"
| "truthy (Some (JStr s)) = (s \<noteq> [])"
| "truthy (Some (JArr xs)) = True"
| "truthy (Some (JObj kvs)) = True"

text \<open>\<open>a ?? b\<close>\<close>

fun nullish :: "json option \<Rightarrow> json option \<Rightarrow> json option" where
  "nullish None b = b"
| "nullish (Some JNull) b = b"
| "nullish a b = a"

text \<open>\<open>value != null && typeof value === "object"\<close>\<close>

fun isObject :: "json option \<Rightarrow> bool" where
  "isObject (Some (JObj kvs)) = True"
| "isObject (Some (JArr xs)) = True"
| "isObject _ = False"

text \<open>\<open>String.prototype.trim\<close> on the ASCII white space characters.\<close>

definition isSpace :: "char \<Rightarrow> bool" where
  "isSpace c = (c \<in> {CHR 0x09, CHR 0x0A, CHR 0x0B, CHR 0x0C, CHR 0x0D, CHR 0x20})"

definition trim :: "string \<Rightarrow> string" where
  "trim s = rev (dropWhile isSpace (rev (dropWhile isSpace s)))"

fun asNonEmptyString :: "json option \<Rightarrow> string option" where
  "asNonEmptyString (Some (JStr s)) = (if trim s = [] then None else Some (trim s))"
| "asNonEmptyString _ = None"

subsection \<open>Numbers as text\<close>

text \<open>\<open>String(n)\<close> for an integer \<open>n\<close>, as \<open>Array.prototype.join\<close> and template
  literals produce it.\<close>

definition digitChar :: "nat \<Rightarrow> char" where
  "digitChar d = char_of (48 + d)"

fun showNat :: "nat \<Rightarrow> string" where
  "showNat n = (if n < 10 then [digitChar n] else showNat (n div 10) @ [digitChar (n mod 10)])"

declare showNat.simps [simp del]

definition showInt :: "int \<Rightarrow> string" where
  "showInt i = (if i < 0 then CHR ''-'' # showNat (nat (- i)) else showNat (nat i))"

fun showNum :: "jsnum \<Rightarrow> string" where
  "showNum (Num i) = showInt i"
| "showNum NaN = ''NaN''"

section \<open>Usage-delta normalizer\<close>

record RawUsage =
  input_tokens :: int
  cached_input_tokens :: int
  output_tokens :: int
  reasoning_output_tokens :: int
  total_tokens :: int

text \<open>The token fields of \<open>CodexUsageEvent\<close>, what \<open>convertToDelta\<close> returns.\<close>

record UsageDelta =
  inputTokens :: int
  cachedInputTokens :: int
  outputTokens :: int
  reasoningOutputTokens :: int
  totalTokens :: int

record CodexUsageEvent = UsageDelta +
  timestamp :: json
  model :: string

fun ensureNumber :: "json option \<Rightarrow> int" where
  "ensureNumber (Some (JNum n)) = n"
| "ensureNumber _ = 0"

definition normalizeRawUsage :: "json option \<Rightarrow> RawUsage option" where
  "normalizeRawUsage v =
     (if \<not> isObject v then None
      else
        let input = ensureNumber (field v ''input_tokens'');
            cached = ensureNumber (nullish (field v ''cached_input_tokens'')
                                           (field v ''cache_read_input_tokens''));
            output = ensureNumber (field v ''output_tokens'');
            reasoning = ensureNumber (field v ''reasoning_output_tokens'');
            total = ensureNumber (field v ''total_tokens'')
        in Some \<lparr> input_tokens = input,
                  cached_input_tokens = cached,
                  output_tokens = output,
                  reasoning_output_tokens = reasoning,
                  total_tokens = (if total > 0 then total else input + output) \<rparr>)"

text \<open>\<open>previous?.f ?? 0\<close>\<close>

definition prevField :: "(RawUsage \<Rightarrow> int) \<Rightarrow> RawUsage option \<Rightarrow> int" where
  "prevField f previous = (case previous of None \<Rightarrow> 0 | Some p \<Rightarrow> f p)"

definition subtractRawUsage :: "RawUsage \<Rightarrow> RawUsage option \<Rightarrow> RawUsage" where
  "subtractRawUsage current previous =
     \<lparr> input_tokens = max (input_tokens current - prevField input_tokens previous) 0,
       cached_input_tokens =
         max (cached_input_tokens current - prevField cached_input_tokens previous) 0,
       output_tokens = max (output_tokens current - prevField output_tokens previous) 0,
       reasoning_output_tokens =
         max (reasoning_output_tokens current - prevField reasoning_output_tokens previous) 0,
       total_tokens = max (total_tokens current - prevField total_tokens previous) 0 \<rparr>"

definition convertToDelta :: "RawUsage \<Rightarrow> UsageDelta" where
  "convertToDelta raw =
     (let total = (if total_tokens raw > 0 then total_tokens raw
                   else input_tokens raw + output_tokens raw);
          cached = min (cached_input_tokens raw) (input_tokens raw)
      in \<lparr> inputTokens = input_tokens raw,
           cachedInputTokens = cached,
           outputTokens = output_tokens raw,
           reasoningOutputTokens = reasoning_output_tokens raw,
           totalTokens = total \<rparr>)"

section \<open>Signature builder\<close>

definition createUserMessageSignature :: "runtime \<Rightarrow> json option \<Rightarrow> string" where
  "createUserMessageSignature rt payload =
     (let message = (case asNonEmptyString (field payload ''message'') of
                       Some m \<Rightarrow> m | None \<Rightarrow> []);
          textElements = (case field payload ''text_elements'' of
                            Some (JArr xs) \<Rightarrow> xs | _ \<Rightarrow> []);
          imageCount = (case field payload ''images'' of
                          Some (JArr xs) \<Rightarrow> int (length xs) | _ \<Rightarrow> 0);
          localImageCount = (case field payload ''local_images'' of
                               Some (JArr xs) \<Rightarrow> int (length xs) | _ \<Rightarrow> 0)
      in stringify rt (JObj [(''message'', JStr message),
                             (''textElements'', JArr textElements),
                             (''imageCount'', JNum imageCount),
                             (''localImageCount'', JNum localImageCount)]))"

text \<open>\<open>parts.join(sep)\<close>\<close>

fun joinWith :: "string \<Rightarrow> string list \<Rightarrow> string" where
  "joinWith sep [] = []"
| "joinWith sep [x] = x"
| "joinWith sep (x # y # ys) = x @ sep @ joinWith sep (y # ys)"

definition createTokenEventSignature :: "CodexUsageEvent \<Rightarrow> string" where
  "createTokenEventSignature event =
     joinWith ''|'' [model event,
                     showInt (inputTokens event),
                     showInt (cachedInputTokens event),
                     showInt (outputTokens event),
                     showInt (reasoningOutputTokens event),
                     showInt (totalTokens event)]"

section \<open>Session parser\<close>

definition LEGACY_FALLBACK_MODEL :: string where
  "LEGACY_FALLBACK_MODEL = ''gpt-5''"

definition orElse :: "'a option \<Rightarrow> 'a option \<Rightarrow> 'a option" where
  "orElse a b = (case a of Some x \<Rightarrow> Some x | None \<Rightarrow> b)"

definition extractModel :: "json option \<Rightarrow> string option" where
  "extractModel v =
     (if \<not> isObject v then None
      else
        let info = field v ''info'';
            fromInfo =
              (if isObject info then
                 orElse (asNonEmptyString (field info ''model''))
                   (orElse (asNonEmptyString (field info ''model_name''))
                      (if isObject (field info ''metadata'')
                       then asNonEmptyString (field (field info ''metadata'') ''model'')
                       else None))
               else None)
        in orElse fromInfo
             (orElse (asNonEmptyString (field v ''model''))
                (if isObject (field v ''metadata'')
                 then asNonEmptyString (field (field v ''metadata'') ''model'')
                 else None)))"

record SessionUserMessage =
  msgTimestamp :: json
  signature :: string

text \<open>The variables of the loop over one file's lines.\<close>

record ParseState =
  previousTotals :: "RawUsage option"
  currentModel :: "string option"
  currentModelIsFallback :: bool
  legacyFallbackUsed :: bool
  sessionDateVar :: "jsnum option"
  sessionCwd :: "json option"
  sessionIdVar :: "string option"
  forkedFromIdVar :: "string option"
  userMessagesVar :: "SessionUserMessage list"
  sessionEvents :: "CodexUsageEvent list"

definition initialParseState :: ParseState where
  "initialParseState =
     \<lparr> previousTotals = None, currentModel = None, currentModelIsFallback = False,
       legacyFallbackUsed = False, sessionDateVar = None, sessionCwd = None,
       sessionIdVar = None, forkedFromIdVar = None, userMessagesVar = [],
       sessionEvents = [] \<rparr>"

text \<open>\<open>a < b\<close> on numbers: false as soon as one is \<open>NaN\<close>.\<close>

fun jsLess :: "jsnum \<Rightarrow> jsnum \<Rightarrow> bool" where
  "jsLess (Num a) (Num b) = (a < b)"
| "jsLess _ _ = False"

text \<open>A string variable is falsy when it is undefined or empty.\<close>

definition strTruthy :: "string option \<Rightarrow> bool" where
  "strTruthy s = (case s of None \<Rightarrow> False | Some x \<Rightarrow> x \<noteq> [])"

definition sessionMeta :: "runtime \<Rightarrow> json option \<Rightarrow> ParseState \<Rightarrow> ParseState" where
  "sessionMeta rt entry st =
     (let metaPayload = field entry ''payload'';
          sessionTimestamp = nullish (field metaPayload ''timestamp'') (field entry ''timestamp'');
          st1 = (case sessionTimestamp of
                   None \<Rightarrow> st
                 | Some ts \<Rightarrow>
                     if truthy sessionTimestamp then
                       (let parsedDate = dateParse rt ts in
                        case sessionDateVar st of
                          None \<Rightarrow> st\<lparr>sessionDateVar := Some parsedDate\<rparr>
                        | Some d \<Rightarrow> if jsLess parsedDate d
                                    then st\<lparr>sessionDateVar := Some parsedDate\<rparr> else st)
                     else st);
          cwd = field metaPayload ''cwd'';
          st2 = (if truthy cwd then st1\<lparr>sessionCwd := cwd\<rparr> else st1);
          st3 = (if \<not> strTruthy (sessionIdVar st2) then
                   (case asNonEmptyString (field metaPayload ''id'') of
                      Some parsedSessionId \<Rightarrow> st2\<lparr>sessionIdVar := Some parsedSessionId\<rparr>
                    | None \<Rightarrow> st2)
                 else st2)
      in if \<not> strTruthy (forkedFromIdVar st3) then
           (case asNonEmptyString (field metaPayload ''forked_from_id'') of
              Some parsedForkedFromId \<Rightarrow> st3\<lparr>forkedFromIdVar := Some parsedForkedFromId\<rparr>
            | None \<Rightarrow> st3)
         else st3)"

definition turnContext :: "json option \<Rightarrow> ParseState \<Rightarrow> ParseState" where
  "turnContext entry st =
     (case extractModel (field entry ''payload'') of
        Some m \<Rightarrow> st\<lparr>currentModel := Some m, currentModelIsFallback := False\<rparr>
      | None \<Rightarrow> st)"

definition userMessage :: "runtime \<Rightarrow> json option \<Rightarrow> json option \<Rightarrow> ParseState \<Rightarrow> ParseState"
  where
  "userMessage rt entry payload st =
     (case field entry ''timestamp'' of
        None \<Rightarrow> st
      | Some ts \<Rightarrow>
          if truthy (Some ts) then
            st\<lparr>userMessagesVar := userMessagesVar st @
                 [\<lparr> msgTimestamp = ts, signature = createUserMessageSignature rt payload \<rparr>]\<rparr>
          else st)"

text \<open>\<open>{ ...payload, info }\<close>: the payload's own properties with \<open>info\<close> set to the
  value just read (a property holding \<open>undefined\<close> reads as a missing one).\<close>

definition withInfo :: "json option \<Rightarrow> json option \<Rightarrow> json option" where
  "withInfo payload info =
     (let kvs = (case payload of Some (JObj kvs) \<Rightarrow> kvs | _ \<Rightarrow> [])
      in Some (JObj (case info of
                       Some i \<Rightarrow> kvs @ [(''info'', i)]
                     | None \<Rightarrow> filter (\<lambda>kv. fst kv \<noteq> ''info'') kvs)))"

text \<open>Lines 194 to 200: the raw usage a \<open>token_count\<close> record stands for.\<close>

definition computeRaw :: "json option \<Rightarrow> RawUsage option \<Rightarrow> RawUsage option" where
  "computeRaw info previous =
     (let lastUsage = normalizeRawUsage (field info ''last_token_usage'');
          totalUsage = normalizeRawUsage (field info ''total_token_usage'')
      in case lastUsage of
           Some r \<Rightarrow> Some r
         | None \<Rightarrow> (case totalUsage of
                      Some t \<Rightarrow> Some (subtractRawUsage t previous)
                    | None \<Rightarrow> None))"

definition zeroDelta :: "'a UsageDelta_scheme \<Rightarrow> bool" where
  "zeroDelta delta =
     (inputTokens delta = 0 \<and> cachedInputTokens delta = 0 \<and>
      outputTokens delta = 0 \<and> reasoningOutputTokens delta = 0)"

text \<open>Lines 218 to 234: the model of the event, and the tracker after it. The local
  \<open>isFallback\<close> is only read by an empty block and is left out.\<close>

definition resolveModel :: "string option \<Rightarrow> ParseState \<Rightarrow> string \<times> ParseState" where
  "resolveModel extractedModel st =
     (let st1 = (case extractedModel of
                   Some m \<Rightarrow> st\<lparr>currentModel := Some m, currentModelIsFallback := False\<rparr>
                 | None \<Rightarrow> st);
          model0 = orElse extractedModel (currentModel st1)
      in case model0 of
           Some m \<Rightarrow>
             if m \<noteq> [] then (m, st1)
             else (LEGACY_FALLBACK_MODEL,
                   st1\<lparr>legacyFallbackUsed := True, currentModel := Some LEGACY_FALLBACK_MODEL,
                       currentModelIsFallback := True\<rparr>)
         | None \<Rightarrow>
             (LEGACY_FALLBACK_MODEL,
              st1\<lparr>legacyFallbackUsed := True, currentModel := Some LEGACY_FALLBACK_MODEL,
                  currentModelIsFallback := True\<rparr>))"

definition tokenCount :: "json option \<Rightarrow> json option \<Rightarrow> ParseState \<Rightarrow> ParseState" where
  "tokenCount entry payload st =
     (case field entry ''timestamp'' of
        None \<Rightarrow> st
      | Some ts \<Rightarrow>
          if \<not> truthy (Some ts) then st
          else
            let info = field payload ''info'';
                raw = computeRaw info (previousTotals st);
                st1 = (case normalizeRawUsage (field info ''total_token_usage'') of
                         Some totalUsage \<Rightarrow> st\<lparr>previousTotals := Some totalUsage\<rparr>
                       | None \<Rightarrow> st)
            in case raw of
                 None \<Rightarrow> st1
               | Some r \<Rightarrow>
                   let delta = convertToDelta r in
                   if zeroDelta delta then st1
                   else
                     let (m, st2) = resolveModel (extractModel (withInfo payload info)) st1
                     in st2\<lparr>sessionEvents := sessionEvents st2 @
                             [\<lparr> inputTokens = inputTokens delta,
                                cachedInputTokens = cachedInputTokens delta,
                                outputTokens = outputTokens delta,
                                reasoningOutputTokens = reasoningOutputTokens delta,
                                totalTokens = totalTokens delta,
                                timestamp = ts, model = m \<rparr>]\<rparr>)"

text \<open>One line of the file; \<open>None\<close> is a blank line or one that \<open>JSON.parse\<close> rejects.\<close>

definition processLine :: "runtime \<Rightarrow> ParseState \<Rightarrow> json option \<Rightarrow> ParseState" where
  "processLine rt st entry =
     (let entryType = field entry ''type'' in
      if entryType = Some (JStr ''session_meta'') then sessionMeta rt entry st
      else if entryType = Some (JStr ''turn_context'') then turnContext entry st
      else if entryType = Some (JStr ''event_msg'') then
        (let payload = field entry ''payload'' in
         if field payload ''type'' = Some (JStr ''user_message'')
         then userMessage rt entry payload st
         else if field payload ''type'' \<noteq> Some (JStr ''token_count'') then st
         else tokenCount entry payload st)
      else st)"

record SessionDedupSignatures =
  messageSignatures :: "string list"
  tokenSignatures :: "string list"

record SessionUsage = SessionDedupSignatures +
  filePath :: string
  cwd :: "json option"
  sessionId :: "string option"
  forkedFromId :: "string option"
  sessionDate :: "jsnum option"
  userMessages :: "SessionUserMessage list"
  events :: "CodexUsageEvent list"

text \<open>One file: its path and its lines in order.\<close>

definition parseSession :: "runtime \<Rightarrow> string \<Rightarrow> json option list \<Rightarrow> SessionUsage" where
  "parseSession rt path lines =
     (let st = foldl (processLine rt) initialParseState lines
      in \<lparr> messageSignatures = map signature (userMessagesVar st),
           tokenSignatures = map createTokenEventSignature (sessionEvents st),
           filePath = path,
           cwd = sessionCwd st,
           sessionId = sessionIdVar st,
           forkedFromId = forkedFromIdVar st,
           sessionDate = sessionDateVar st,
           userMessages = userMessagesVar st,
           events = sessionEvents st \<rparr>)"

section \<open>Fork-aware deduplicator\<close>

definition FORK_PREFIX_MIN_MATCH :: nat where
  "FORK_PREFIX_MIN_MATCH = 3"

definition shouldApplyForkDedup :: "nat \<Rightarrow> nat \<Rightarrow> bool" where
  "shouldApplyForkDedup overlap sequenceLength =
     (if overlap < FORK_PREFIX_MIN_MATCH then False
      else if sequenceLength \<le> 4 then overlap = sequenceLength
      else True)"

text \<open>The \<open>while\<close> loop of \<open>commonPrefixLength\<close>, from \<open>index\<close> on.\<close>

function commonPrefixLoop :: "string list \<Rightarrow> string list \<Rightarrow> nat \<Rightarrow> nat" where
  "commonPrefixLoop left right index =
     (if index < min (length left) (length right) \<and> left ! index = right ! index
      then commonPrefixLoop left right (index + 1)
      else index)"
  by pat_completeness auto
termination
  by (relation "measure (\<lambda>(left, right, index). min (length left) (length right) - index)") auto

declare commonPrefixLoop.simps [simp del]

definition commonPrefixLength :: "string list \<Rightarrow> string list \<Rightarrow> nat" where
  "commonPrefixLength left right = commonPrefixLoop left right 0"

text \<open>The \<open>for\<close> loop of \<open>findLargestPrefixOverlap\<close> over the candidates left, with the
  best overlap so far.\<close>

fun overlapLoop :: "string list \<Rightarrow> string list list \<Rightarrow> nat \<Rightarrow> nat" where
  "overlapLoop sequence [] best = best"
| "overlapLoop sequence (candidate # rest) best =
     (if length candidate = 0 then overlapLoop sequence rest best
      else
        let overlap = commonPrefixLength sequence candidate in
        if overlap > best then
          (if overlap = length sequence then overlap
           else overlapLoop sequence rest overlap)
        else overlapLoop sequence rest best)"

definition findLargestPrefixOverlap :: "string list \<Rightarrow> string list list \<Rightarrow> nat" where
  "findLargestPrefixOverlap sequence candidateSequences =
     (if length sequence = 0 \<or> length candidateSequences = 0 then 0
      else overlapLoop sequence candidateSequences 0)"

section \<open>Collection orchestrator\<close>

text \<open>
  The result of a run. \<open>dailyActivity\<close> is a \<open>Map\<close> in insertion order, here a list of
  pairs with distinct keys; \<open>projects\<close> is a \<open>Set\<close> in insertion order. The field
  \<open>events\<close> of the source is \<open>mergedEvents\<close> here, \<open>events\<close> being a field of
  \<open>SessionUsage\<close> too.
\<close>

record CodexUsageData =
  mergedEvents :: "CodexUsageEvent list"
  dailyActivity :: "(string \<times> int) list"
  totalMessages :: int
  totalSessions :: nat
  projects :: "json list"
  earliestSessionDate :: "jsnum option"

text \<open>
  The variables of the merge loop: the result under construction and the two indexes.
  The keys of \<open>priorSessionsByCwd\<close> are compared as values, which is what a \<open>Map\<close>
  does for the strings a working directory is declared to be.
\<close>

record MergeState = CodexUsageData +
  priorSessionsByCwd :: "json \<Rightarrow> SessionDedupSignatures list option"
  sessionsById :: "string \<Rightarrow> SessionDedupSignatures option"

definition initialMergeState :: "nat \<Rightarrow> MergeState" where
  "initialMergeState n =
     \<lparr> mergedEvents = [], dailyActivity = [], totalMessages = 0, totalSessions = n,
       projects = [], earliestSessionDate = None,
       priorSessionsByCwd = (\<lambda>k. None), sessionsById = (\<lambda>k. None) \<rparr>"

text \<open>\<open>dailyActivity.get(key) || 0\<close>\<close>

definition activityGet :: "(string \<times> int) list \<Rightarrow> string \<Rightarrow> int" where
  "activityGet m key = (case map_of m key of None \<Rightarrow> 0 | Some c \<Rightarrow> c)"

text \<open>\<open>dailyActivity.set(key, value)\<close>: an existing key keeps its place.\<close>

fun activitySet :: "(string \<times> int) list \<Rightarrow> string \<Rightarrow> int \<Rightarrow> (string \<times> int) list" where
  "activitySet [] key v = [(key, v)]"
| "activitySet ((k, c) # rest) key v =
     (if k = key then (k, v) # rest else (k, c) # activitySet rest key v)"

text \<open>\<open>String(n).padStart(2, "0")\<close>\<close>

definition padStart2 :: "string \<Rightarrow> string" where
  "padStart2 s = replicate (2 - length s) CHR ''0'' @ s"

fun jsAdd :: "jsnum \<Rightarrow> int \<Rightarrow> jsnum" where
  "jsAdd (Num a) b = Num (a + b)"
| "jsAdd NaN b = NaN"

definition getFullYear :: "runtime \<Rightarrow> jsnum \<Rightarrow> jsnum" where
  "getFullYear rt date = (case date of Num t \<Rightarrow> Num (fst (localDate rt t)) | NaN \<Rightarrow> NaN)"

definition getMonth :: "runtime \<Rightarrow> jsnum \<Rightarrow> jsnum" where
  "getMonth rt date = (case date of Num t \<Rightarrow> Num (fst (snd (localDate rt t))) | NaN \<Rightarrow> NaN)"

definition getDate :: "runtime \<Rightarrow> jsnum \<Rightarrow> jsnum" where
  "getDate rt date = (case date of Num t \<Rightarrow> Num (snd (snd (localDate rt t))) | NaN \<Rightarrow> NaN)"

definition formatDateKey :: "runtime \<Rightarrow> jsnum \<Rightarrow> string" where
  "formatDateKey rt date =
     (let year = getFullYear rt date;
          month = padStart2 (showNum (jsAdd (getMonth rt date) 1));
          day = padStart2 (showNum (getDate rt date))
      in showNum year @ ''-'' @ month @ ''-'' @ day)"

definition sigsOf :: "SessionUsage \<Rightarrow> SessionDedupSignatures" where
  "sigsOf session =
     \<lparr> messageSignatures = messageSignatures session,
       tokenSignatures = tokenSignatures session \<rparr>"

text \<open>Line 290: the parent, when the session names one that has been processed.\<close>

definition parentSession :: "MergeState \<Rightarrow> SessionUsage \<Rightarrow> SessionDedupSignatures option" where
  "parentSession st session =
     (case forkedFromId session of
        None \<Rightarrow> None
      | Some f \<Rightarrow> if f \<noteq> [] then sessionsById st f else None)"

text \<open>\<open>priorSessionsByCwd.get(session.cwd) ?? []\<close>\<close>

definition previousSessions :: "MergeState \<Rightarrow> json \<Rightarrow> SessionDedupSignatures list" where
  "previousSessions st c = (case priorSessionsByCwd st c of None \<Rightarrow> [] | Some l \<Rightarrow> l)"

text \<open>Lines 288 to 321: the two start indexes and the directory index after them.\<close>

definition forkDedup ::
  "MergeState \<Rightarrow> SessionUsage \<Rightarrow>
     nat \<times> nat \<times> (json \<Rightarrow> SessionDedupSignatures list option)" where
  "forkDedup st session =
     (case parentSession st session of
        Some parent \<Rightarrow>
          (commonPrefixLength (messageSignatures session) (messageSignatures parent),
           commonPrefixLength (tokenSignatures session) (tokenSignatures parent),
           priorSessionsByCwd st)
      | None \<Rightarrow>
          (case cwd session of
             None \<Rightarrow> (0, 0, priorSessionsByCwd st)
           | Some c \<Rightarrow>
               if \<not> truthy (Some c) then (0, 0, priorSessionsByCwd st)
               else
                 let previous = previousSessions st c;
                     messageOverlap =
                       findLargestPrefixOverlap (messageSignatures session)
                         (map messageSignatures previous);
                     messageStartIndex =
                       (if shouldApplyForkDedup messageOverlap
                             (length (messageSignatures session))
                        then messageOverlap else 0);
                     tokenOverlap =
                       findLargestPrefixOverlap (tokenSignatures session)
                         (map tokenSignatures previous);
                     tokenStartIndex =
                       (if shouldApplyForkDedup tokenOverlap (length (tokenSignatures session))
                        then tokenOverlap else 0)
                 in (messageStartIndex, tokenStartIndex,
                     (priorSessionsByCwd st)(c \<mapsto> previous @ [sigsOf session]))))"

text \<open>Lines 323 to 327, for one retained message.\<close>

definition countMessage :: "runtime \<Rightarrow> MergeState \<Rightarrow> SessionUserMessage \<Rightarrow> MergeState" where
  "countMessage rt st message =
     (let dateKey = formatDateKey rt (dateParse rt (msgTimestamp message))
      in st\<lparr>totalMessages := totalMessages st + 1,
            dailyActivity :=
              activitySet (dailyActivity st) dateKey (activityGet (dailyActivity st) dateKey + 1)\<rparr>)"

text \<open>\<open>projects.add(cwd)\<close>\<close>

definition setAdd :: "json list \<Rightarrow> json \<Rightarrow> json list" where
  "setAdd xs x = (if x \<in> set xs then xs else xs @ [x])"

text \<open>Lines 280 to 286: the project set and the earliest session date.\<close>

definition beforeDedup :: "MergeState \<Rightarrow> SessionUsage \<Rightarrow> MergeState" where
  "beforeDedup st session =
     (let st1 = (case cwd session of
                   None \<Rightarrow> st
                 | Some c \<Rightarrow> if truthy (Some c) then st\<lparr>projects := setAdd (projects st) c\<rparr>
                             else st)
      in case sessionDate session of
           None \<Rightarrow> st1
         | Some d \<Rightarrow>
             (case earliestSessionDate st1 of
                None \<Rightarrow> st1\<lparr>earliestSessionDate := Some d\<rparr>
              | Some e \<Rightarrow> if jsLess d e then st1\<lparr>earliestSessionDate := Some d\<rparr>
                          else st1))"

text \<open>The body of the loop over the sorted sessions, lines 279 to 337.\<close>

definition mergeSession :: "runtime \<Rightarrow> MergeState \<Rightarrow> SessionUsage \<Rightarrow> MergeState" where
  "mergeSession rt st session =
     (let st2 = beforeDedup st session;
          (messageStartIndex, tokenStartIndex, prior) = forkDedup st2 session;
          st3 = st2\<lparr>priorSessionsByCwd := prior\<rparr>;
          st4 = foldl (countMessage rt) st3 (drop messageStartIndex (userMessages session));
          st5 = st4\<lparr>mergedEvents := mergedEvents st4 @ drop tokenStartIndex (events session)\<rparr>
      in if strTruthy (sessionId session)
         then (case sessionId session of
                 Some i \<Rightarrow> st5\<lparr>sessionsById := (sessionsById st5)(i \<mapsto> sigsOf session)\<rparr>
               | None \<Rightarrow> st5)
         else st5)"

subsection \<open>Sorting\<close>

text \<open>
  \<open>Array.prototype.sort\<close> with a comparator. The language requires the sort to be stable
  and reads a \<open>NaN\<close> from the comparator as \<open>0\<close>; with a consistent comparator every
  stable sort returns the same array, which this insertion sort computes.
\<close>

definition sortCompare :: "('a \<Rightarrow> 'a \<Rightarrow> jsnum) \<Rightarrow> 'a \<Rightarrow> 'a \<Rightarrow> int" where
  "sortCompare cmp x y = (case cmp x y of Num v \<Rightarrow> v | NaN \<Rightarrow> 0)"

fun insertBy :: "('a \<Rightarrow> 'a \<Rightarrow> jsnum) \<Rightarrow> 'a \<Rightarrow> 'a list \<Rightarrow> 'a list" where
  "insertBy cmp x [] = [x]"
| "insertBy cmp x (y # ys) =
     (if sortCompare cmp x y \<le> 0 then x # y # ys else y # insertBy cmp x ys)"

definition sortBy :: "('a \<Rightarrow> 'a \<Rightarrow> jsnum) \<Rightarrow> 'a list \<Rightarrow> 'a list" where
  "sortBy cmp xs = foldr (insertBy cmp) xs []"

text \<open>\<open>a !== b\<close> and \<open>a - b\<close> on numbers.\<close>

fun jsStrictNe :: "jsnum \<Rightarrow> jsnum \<Rightarrow> bool" where
  "jsStrictNe (Num a) (Num b) = (a \<noteq> b)"
| "jsStrictNe _ _ = True"

fun jsSub :: "jsnum \<Rightarrow> jsnum \<Rightarrow> jsnum" where
  "jsSub (Num a) (Num b) = Num (a - b)"
| "jsSub _ _ = NaN"

definition compareSessionsByDate :: "runtime \<Rightarrow> SessionUsage \<Rightarrow> SessionUsage \<Rightarrow> jsnum" where
  "compareSessionsByDate rt a b =
     (case (sessionDate a, sessionDate b) of
        (Some aTime, Some bTime) \<Rightarrow>
          if jsStrictNe aTime bTime then jsSub aTime bTime
          else Num (localeCompare rt (filePath a) (filePath b))
      | (Some aTime, None) \<Rightarrow> Num (- 1)
      | (None, Some bTime) \<Rightarrow> Num 1
      | (None, None) \<Rightarrow> Num (localeCompare rt (filePath a) (filePath b)))"

text \<open>The comparator of line 339.\<close>

definition compareEvents :: "runtime \<Rightarrow> CodexUsageEvent \<Rightarrow> CodexUsageEvent \<Rightarrow> jsnum" where
  "compareEvents rt a b = jsSub (dateParse rt (timestamp a)) (dateParse rt (timestamp b))"

text \<open>The sessions in the order in which the merge loop takes them.\<close>

definition sortedSessions ::
  "runtime \<Rightarrow> (string \<times> json option list) list \<Rightarrow> SessionUsage list" where
  "sortedSessions rt files =
     sortBy (compareSessionsByDate rt) (map (\<lambda>(path, lines). parseSession rt path lines) files)"

text \<open>The run, given the files that \<open>listCodexSessionFiles\<close> found, each with its lines.\<close>

definition collectCodexUsageData ::
  "runtime \<Rightarrow> (string \<times> json option list) list \<Rightarrow> CodexUsageData" where
  "collectCodexUsageData rt files =
     (let st = foldl (mergeSession rt) (initialMergeState (length files)) (sortedSessions rt files)
      in \<lparr> mergedEvents = sortBy (compareEvents rt) (mergedEvents st),
           dailyActivity = dailyActivity st,
           totalMessages = totalMessages st,
           totalSessions = length files,
           projects = projects st,
           earliestSessionDate = earliestSessionDate st \<rparr>)"

section \<open>Notions used to state the properties\<close>

text \<open>The four component counters of a usage record, as \<open>normalizeRawUsage\<close> reads them,
  are not negative.\<close>

definition nonNegativeCounters :: "json option \<Rightarrow> bool" where
  "nonNegativeCounters v =
     (0 \<le> ensureNumber (field v ''input_tokens'') \<and>
      0 \<le> ensureNumber (nullish (field v ''cached_input_tokens'')
                                 (field v ''cache_read_input_tokens'')) \<and>
      0 \<le> ensureNumber (field v ''output_tokens'') \<and>
      0 \<le> ensureNumber (field v ''reasoning_output_tokens''))"

text \<open>The \<open>last_token_usage\<close> of a line, where it has one.\<close>

definition lastTokenUsage :: "json option \<Rightarrow> json option" where
  "lastTokenUsage entry = field (field (field entry ''payload'') ''info'') ''last_token_usage''"

text \<open>The order of the specification on sessions: earliest timestamp ascending, sessions
  without a timestamp last, the file path as the tiebreak.\<close>

definition sessionBefore :: "runtime \<Rightarrow> SessionUsage \<Rightarrow> SessionUsage \<Rightarrow> bool" where
  "sessionBefore rt a b =
     (case (sessionDate a, sessionDate b) of
        (Some (Num x), Some (Num y)) \<Rightarrow>
          x < y \<or> (x = y \<and> localeCompare rt (filePath a) (filePath b) \<le> 0)
      | (Some (Num x), None) \<Rightarrow> True
      | (None, None) \<Rightarrow> localeCompare rt (filePath a) (filePath b) \<le> 0
      | _ \<Rightarrow> False)"

text \<open>A comparator on strings that orders the given ones consistently.\<close>

definition consistentOn :: "string list \<Rightarrow> (string \<Rightarrow> string \<Rightarrow> int) \<Rightarrow> bool" where
  "consistentOn ps lc =
     ((\<forall>a\<in>set ps. \<forall>b\<in>set ps. lc a b \<le> 0 \<or> lc b a \<le> 0) \<and>
      (\<forall>a\<in>set ps. \<forall>b\<in>set ps. \<forall>c\<in>set ps. lc a b \<le> 0 \<and> lc b c \<le> 0 \<longrightarrow> lc a c \<le> 0))"

text \<open>The time of an event, when its timestamp is a date.\<close>

definition eventTime :: "runtime \<Rightarrow> CodexUsageEvent \<Rightarrow> int option" where
  "eventTime rt e = (case dateParse rt (timestamp e) of Num t \<Rightarrow> Some t | NaN \<Rightarrow> None)"

definition validSessionDate :: "SessionUsage \<Rightarrow> bool" where
  "validSessionDate s = (sessionDate s \<noteq> Some NaN)"

text \<open>The event that line 236 pushes.\<close>

definition mkEvent :: "UsageDelta \<Rightarrow> json \<Rightarrow> string \<Rightarrow> CodexUsageEvent" where
  "mkEvent delta ts m =
     \<lparr> inputTokens = inputTokens delta, cachedInputTokens = cachedInputTokens delta,
       outputTokens = outputTokens delta, reasoningOutputTokens = reasoningOutputTokens delta,
       totalTokens = totalTokens delta, timestamp = ts, model = m \<rparr>"

text \<open>The parser state after lines 202 to 204.\<close>

definition afterTotals :: "json option \<Rightarrow> ParseState \<Rightarrow> ParseState" where
  "afterTotals info st =
     (case normalizeRawUsage (field info ''total_token_usage'') of
        Some totalUsage \<Rightarrow> st\<lparr>previousTotals := Some totalUsage\<rparr>
      | None \<Rightarrow> st)"

text \<open>The events that a \<open>token_count\<close> record adds to the session: none or one.\<close>

definition emitted :: "json option \<Rightarrow> json option \<Rightarrow> ParseState \<Rightarrow> CodexUsageEvent list" where
  "emitted entry payload st =
     (case field entry ''timestamp'' of
        None \<Rightarrow> []
      | Some ts \<Rightarrow>
          if \<not> truthy (Some ts) then []
          else (case computeRaw (field payload ''info'') (previousTotals st) of
                  None \<Rightarrow> []
                | Some r \<Rightarrow>
                    if zeroDelta (convertToDelta r) then []
                    else [mkEvent (convertToDelta r) ts
                            (fst (resolveModel
                                    (extractModel (withInfo payload (field payload ''info'')))
                                    (afterTotals (field payload ''info'') st)))]))"

definition nonNegativeDelta :: "CodexUsageEvent \<Rightarrow> bool" where
  "nonNegativeDelta e =
     (0 \<le> inputTokens e \<and> 0 \<le> cachedInputTokens e \<and> 0 \<le> outputTokens e \<and>
      0 \<le> reasoningOutputTokens e \<and> 0 \<le> totalTokens e)"

text \<open>The total that a \<open>token_count\<close> record reports: the \<open>total_tokens\<close> of its direct
  delta or, for a record without a direct delta, the increase of the cumulative total
  over the last-seen totals.\<close>

definition reportedTotal :: "json option \<Rightarrow> RawUsage option \<Rightarrow> int" where
  "reportedTotal info previous =
     (if isObject (field info ''last_token_usage'')
      then ensureNumber (field (field info ''last_token_usage'') ''total_tokens'')
      else (case normalizeRawUsage (field info ''total_token_usage'') of
              Some current \<Rightarrow> max (total_tokens current - prevField total_tokens previous) 0
            | None \<Rightarrow> 0))"

text \<open>The minimum-match guard in the words of the specification: the overlap when it is
  at least 3 and, for a sequence of at most 4 elements, the whole sequence; else 0.\<close>

definition guarded :: "nat \<Rightarrow> nat \<Rightarrow> nat" where
  "guarded overlap n = (if 3 \<le> overlap \<and> (n \<le> 4 \<longrightarrow> overlap = n) then overlap else 0)"

text \<open>
  The first \<open>k\<close> signatures of a session (\<open>own\<close>) are those of an earlier session \<open>p\<close>
  (\<open>other\<close>), and \<open>p\<close> is the session's parent, or the session has no parent on record,
  \<open>p\<close> is a candidate of its directory and \<open>k\<close> passes the minimum-match guard.
\<close>

definition sharedWith ::
  "MergeState \<Rightarrow> SessionUsage \<Rightarrow> SessionDedupSignatures \<Rightarrow> string list \<Rightarrow> string list \<Rightarrow> nat
     \<Rightarrow> bool" where
  "sharedWith st s p own other k =
     (k \<le> length own \<and> k \<le> length other \<and> take k own = take k other \<and>
      (parentSession st s = Some p \<or>
       (parentSession st s = None \<and>
        (case cwd s of
           None \<Rightarrow> False
         | Some c \<Rightarrow> truthy (Some c) \<and> p \<in> set (previousSessions st c)) \<and>
        3 \<le> k \<and> (length own \<le> 4 \<longrightarrow> k = length own))))"

text \<open>The message count is the sum of the per-day counts.\<close>

definition counted :: "MergeState \<Rightarrow> bool" where
  "counted st = (totalMessages st = sum_list (map snd (dailyActivity st)))"

text \<open>Both events have a time and the first is not after the second.\<close>

definition eventBefore :: "runtime \<Rightarrow> CodexUsageEvent \<Rightarrow> CodexUsageEvent \<Rightarrow> bool" where
  "eventBefore rt a b =
     (case (eventTime rt a, eventTime rt b) of (Some x, Some y) \<Rightarrow> x \<le> y | _ \<Rightarrow> False)"

subsection \<open>A runtime for the examples\<close>

text \<open>
  Timestamps are epoch milliseconds given as numbers, the calendar is that of January
  1970 in UTC, strings compare by character code, and \<open>JSON.stringify\<close> is written for
  strings that need no escaping.
\<close>

fun codeCompare :: "string \<Rightarrow> string \<Rightarrow> int" where
  "codeCompare [] [] = 0"
| "codeCompare [] (y # ys) = - 1"
| "codeCompare (x # xs) [] = 1"
| "codeCompare (x # xs) (y # ys) =
     (if (of_char x :: nat) < of_char y then - 1
      else if (of_char y :: nat) < of_char x then 1
      else codeCompare xs ys)"

fun render :: "json \<Rightarrow> string" where
  "render JNull = ''null''"
| "render (JBool b) = (if b then ''true'' else ''false'')"
| "render (JNum n) = showInt n"
| "render JNonFinite = ''null''"
| "render (JStr s) = CHR 0x22 # s @ [CHR 0x22]"
| "render (JArr xs) = ''['' @ joinWith '','' (map render xs) @ '']''"
| "render (JObj kvs) =
     ''{'' @ joinWith '','' (map (\<lambda>kv. CHR 0x22 # fst kv @ [CHR 0x22] @ '':'' @ render (snd kv)) kvs)
       @ ''}''"

definition exampleRuntime :: runtime where
  "exampleRuntime =
     \<lparr> dateParse = (\<lambda>v. case v of JNum n \<Rightarrow> Num n | _ \<Rightarrow> NaN),
       localDate = (\<lambda>t. (1970, 0, 1 + t div 86400000)),
       localeCompare = codeCompare,
       stringify = render \<rparr>"

subsection \<open>Example log lines\<close>

definition tokenCountLine :: "json \<Rightarrow> (string \<times> json) list \<Rightarrow> json option" where
  "tokenCountLine ts info =
     Some (JObj [(''type'', JStr ''event_msg''), (''timestamp'', ts),
                 (''payload'', JObj [(''type'', JStr ''token_count''), (''info'', JObj info)])])"

definition userMessageLine :: "json \<Rightarrow> string \<Rightarrow> json option" where
  "userMessageLine ts m =
     Some (JObj [(''type'', JStr ''event_msg''), (''timestamp'', ts),
                 (''payload'', JObj [(''type'', JStr ''user_message''), (''message'', JStr m)])])"

definition usage :: "int \<Rightarrow> int \<Rightarrow> int \<Rightarrow> json" where
  "usage i c out =
     JObj [(''input_tokens'', JNum i), (''cached_input_tokens'', JNum c),
           (''output_tokens'', JNum out)]"

definition rawUsage :: "int \<Rightarrow> int \<Rightarrow> int \<Rightarrow> int \<Rightarrow> int \<Rightarrow> RawUsage" where
  "rawUsage i c out r t =
     \<lparr> input_tokens = i, cached_input_tokens = c, output_tokens = out,
       reasoning_output_tokens = r, total_tokens = t \<rparr>"

text \<open>A session that has seen cumulative totals, and a record that repeats them.\<close>

definition seenTotals :: ParseState where
  "seenTotals = initialParseState\<lparr>previousTotals := Some (rawUsage 100 0 50 0 150)\<rparr>"

definition repeatedTotals :: "json option" where
  "repeatedTotals = tokenCountLine (JNum 7) [(''total_token_usage'', usage 100 0 50)]"

text \<open>A record whose direct delta has a negative counter.\<close>

definition negativeDelta :: "json option" where
  "negativeDelta = tokenCountLine (JNum 5) [(''last_token_usage'', usage (- 5) 0 0)]"

text \<open>Two records with direct deltas, the second with a reported total.\<close>

definition directDeltas :: "json option list" where
  "directDeltas =
     [tokenCountLine (JNum 5) [(''last_token_usage'', usage 10 4 5)],
      tokenCountLine (JNum 6)
        [(''last_token_usage'',
          JObj [(''input_tokens'', JNum 3), (''output_tokens'', JNum 2),
                (''total_tokens'', JNum 9)])]]"

text \<open>The second cumulative record of the specification's example, after the first.\<close>

definition nextTotals :: "json option" where
  "nextTotals = tokenCountLine (JNum 8) [(''total_token_usage'', usage 150 0 80)]"

text \<open>A session whose cached counter rises by more than its input counter, and a
  cumulative record without a timestamp.\<close>

definition seenCache :: ParseState where
  "seenCache = initialParseState\<lparr>previousTotals := Some (rawUsage 90 20 0 0 90)\<rparr>"

definition cacheTotals :: "json option" where
  "cacheTotals = tokenCountLine (JNum 9) [(''total_token_usage'', usage 100 80 0)]"

definition untimedTotals :: "json option" where
  "untimedTotals =
     Some (JObj [(''type'', JStr ''event_msg''),
                 (''payload'', JObj [(''type'', JStr ''token_count''),
                                     (''info'', JObj [(''total_token_usage'', usage 100 0 50)])])])"

text \<open>A record that names its model.\<close>

definition namedModel :: "json option" where
  "namedModel =
     tokenCountLine (JNum 5) [(''model'', JStr '' o3 ''), (''last_token_usage'', usage 10 4 5)]"

subsection \<open>Example sessions\<close>

definition metaLine :: "json \<Rightarrow> (string \<times> json) list \<Rightarrow> json option" where
  "metaLine ts rest =
     Some (JObj [(''type'', JStr ''session_meta''),
                 (''payload'', JObj ((''timestamp'', ts) # rest))])"

text \<open>Session A with three messages and one usage event; session B, forked from A, that
  repeats them and goes on; session C in the same directory, without a declared parent,
  with the four messages of B.\<close>

definition logA :: "json option list" where
  "logA =
     [metaLine (JNum 1000) [(''id'', JStr ''A''), (''cwd'', JStr ''/proj'')],
      userMessageLine (JNum 1001) ''m1'',
      userMessageLine (JNum 1002) ''m2'',
      userMessageLine (JNum 1003) ''m3'',
      tokenCountLine (JNum 1004) [(''model'', JStr ''o3''), (''last_token_usage'', usage 10 0 5)]]"

definition logB :: "json option list" where
  "logB =
     [metaLine (JNum 2000)
        [(''id'', JStr ''B''), (''forked_from_id'', JStr ''A''), (''cwd'', JStr ''/proj'')],
      userMessageLine (JNum 1001) ''m1'',
      userMessageLine (JNum 1002) ''m2'',
      userMessageLine (JNum 1003) ''m3'',
      tokenCountLine (JNum 1004) [(''model'', JStr ''o3''), (''last_token_usage'', usage 10 0 5)],
      userMessageLine (JNum 2001) ''m4'',
      tokenCountLine (JNum 2002) [(''model'', JStr ''o3''), (''last_token_usage'', usage 7 0 3)]]"

definition logC :: "json option list" where
  "logC =
     [metaLine (JNum 3000) [(''cwd'', JStr ''/proj'')],
      userMessageLine (JNum 1001) ''m1'',
      userMessageLine (JNum 1002) ''m2'',
      userMessageLine (JNum 1003) ''m3'',
      userMessageLine (JNum 2001) ''m4'']"

text \<open>A session in the directory of A, without a declared parent, that shares the three
  messages of A and has five.\<close>

definition logD :: "json option list" where
  "logD =
     [metaLine (JNum 4000) [(''cwd'', JStr ''/proj'')],
      userMessageLine (JNum 1001) ''m1'',
      userMessageLine (JNum 1002) ''m2'',
      userMessageLine (JNum 1003) ''m3'',
      userMessageLine (JNum 4001) ''x'',
      userMessageLine (JNum 4002) ''y'']"

definition sessionA :: SessionUsage where
  "sessionA = parseSession exampleRuntime ''a.jsonl'' logA"

definition sessionB :: SessionUsage where
  "sessionB = parseSession exampleRuntime ''b.jsonl'' logB"

definition sessionC :: SessionUsage where
  "sessionC = parseSession exampleRuntime ''c.jsonl'' logC"

definition sessionD :: SessionUsage where
  "sessionD = parseSession exampleRuntime ''d.jsonl'' logD"

text \<open>The merge state after A, and after A and B.\<close>

definition afterA :: MergeState where
  "afterA = mergeSession exampleRuntime (initialMergeState 3) sessionA"

definition afterAB :: MergeState where
  "afterAB = mergeSession exampleRuntime afterA sessionB"

text \<open>The three files as the directory walk finds them: B, then A, then C.\<close>

definition threeFiles :: "(string \<times> json option list) list" where
  "threeFiles = [(''b.jsonl'', logB), (''a.jsonl'', logA), (''c.jsonl'', logC)]"

text \<open>One file with the same direct delta twice.\<close>

definition repeatedDelta :: "json option list" where
  "repeatedDelta =
     [tokenCountLine (JNum 5) [(''model'', JStr ''o3''), (''last_token_usage'', usage 10 0 5)],
      tokenCountLine (JNum 6) [(''last_token_usage'', usage 10 0 5)]]"

text \<open>The message signature, a message and a usage event with the example runtime.\<close>

definition exampleSignature :: "string \<Rightarrow> string" where
  "exampleSignature m =
     render (JObj [(''message'', JStr m), (''textElements'', JArr []),
                   (''imageCount'', JNum 0), (''localImageCount'', JNum 0)])"

definition exampleMessage :: "int \<Rightarrow> string \<Rightarrow> SessionUserMessage" where
  "exampleMessage ts m = \<lparr> msgTimestamp = JNum ts, signature = exampleSignature m \<rparr>"

definition exampleEvent :: "int \<Rightarrow> int \<Rightarrow> int \<Rightarrow> CodexUsageEvent" where
  "exampleEvent ts i out =
     \<lparr> inputTokens = i, cachedInputTokens = 0, outputTokens = out, reasoningOutputTokens = 0,
       totalTokens = i + out, timestamp = JNum ts, model = ''o3'' \<rparr>"

text \<open>Three files without messages, each with one session date and one usage event:
  dated 1000 with an event at 20, dated by a string that is no date with an event at
  another such string, dated 500 with an event at 10.\<close>

definition datedLog :: "json \<Rightarrow> json \<Rightarrow> int \<Rightarrow> json option list" where
  "datedLog d ts i =
     [metaLine d [], tokenCountLine ts [(''last_token_usage'', usage i 0 1)]]"

definition invalidDateFiles :: "(string \<times> json option list) list" where
  "invalidDateFiles =
     [(''a.jsonl'', datedLog (JNum 1000) (JNum 20) 1),
      (''b.jsonl'', datedLog (JStr ''garbage'') (JStr ''bad'') 2),
      (''c.jsonl'', datedLog (JNum 500) (JNum 10) 3)]"

definition datedEvent :: "json \<Rightarrow> int \<Rightarrow> CodexUsageEvent" where
  "datedEvent ts i =
     \<lparr> inputTokens = i, cachedInputTokens = 0, outputTokens = 1, reasoningOutputTokens = 0,
       totalTokens = i + 1, timestamp = ts, model = ''gpt-5'' \<rparr>"

definition datedSession :: "string \<Rightarrow> jsnum \<Rightarrow> json \<Rightarrow> int \<Rightarrow> SessionUsage" where
  "datedSession path d ts i =
     \<lparr> messageSignatures = [], tokenSignatures = [createTokenEventSignature (datedEvent ts i)],
       filePath = path, cwd = None, sessionId = None, forkedFromId = None,
       sessionDate = Some d, userMessages = [], events = [datedEvent ts i] \<rparr>"

section \<open>The parser adds events only for token counts\<close>

lemma resolveModel_events: "sessionEvents (snd (resolveModel x st)) = sessionEvents st"
  by (simp add: resolveModel_def Let_def orElse_def split: option.splits)

lemma tokenCount_events:
  "sessionEvents (tokenCount entry payload st) = sessionEvents st @ emitted entry payload st"
  by (simp add: tokenCount_def emitted_def afterTotals_def mkEvent_def Let_def resolveModel_events
        case_prod_beta split: option.splits)

lemma sessionMeta_events: "sessionEvents (sessionMeta rt entry st) = sessionEvents st"
  by (simp add: sessionMeta_def Let_def split: option.splits)

lemma turnContext_events: "sessionEvents (turnContext entry st) = sessionEvents st"
  by (simp add: turnContext_def split: option.splits)

lemma userMessage_events: "sessionEvents (userMessage rt entry payload st) = sessionEvents st"
  by (simp add: userMessage_def split: option.splits)

lemma processLine_events:
  "sessionEvents (processLine rt st l) = sessionEvents st \<or>
   sessionEvents (processLine rt st l) = sessionEvents st @ emitted l (field l ''payload'') st"
  by (simp add: processLine_def Let_def sessionMeta_events turnContext_events
        userMessage_events tokenCount_events)

text \<open>A property of every event a line can add holds of every event of the session.\<close>

lemma parse_events_invariant:
  assumes step: "\<forall>l\<in>set lines. \<forall>st. \<forall>e\<in>set (emitted l (field l ''payload'') st). Q e"
      and init: "\<forall>e\<in>set (sessionEvents st0). Q e"
  shows "\<forall>e\<in>set (sessionEvents (foldl (processLine rt) st0 lines)). Q e"
  using assms
proof (induction lines arbitrary: st0)
  case Nil
  then show ?case by simp
next
  case (Cons l ls)
  have new: "\<forall>e\<in>set (emitted l (field l ''payload'') st0). Q e"
    using Cons.prems(1) by simp
  have "\<forall>e\<in>set (sessionEvents (processLine rt st0 l)). Q e"
    using processLine_events [of rt st0 l] Cons.prems(2) new by auto
  moreover have "\<forall>l\<in>set ls. \<forall>st. \<forall>e\<in>set (emitted l (field l ''payload'') st). Q e"
    using Cons.prems(1) by simp
  ultimately show ?case using Cons.IH [of "processLine rt st0 l"] by simp
qed

lemma parseSession_events:
  "events (parseSession rt path lines) =
   sessionEvents (foldl (processLine rt) initialParseState lines)"
  by (simp add: parseSession_def Let_def)

section \<open>Zero deltas\<close>

lemma emitted_not_zero: "e \<in> set (emitted entry payload st) \<Longrightarrow> \<not> zeroDelta e"
  by (auto simp: emitted_def mkEvent_def zeroDelta_def split: option.splits if_splits)

text \<open>
  C7. A \<open>token_count\<close> record whose computed delta has its four component counters at
  zero adds no event to the session, and no event of a parsed session has all four at
  zero.
\<close>

theorem zero_delta_produces_no_event:
  "(computeRaw (field payload ''info'') (previousTotals st) = Some r \<and>
    zeroDelta (convertToDelta r)
      \<longrightarrow> sessionEvents (tokenCount entry payload st) = sessionEvents st) \<and>
   (\<forall>e\<in>set (events (parseSession rt path lines)). \<not> zeroDelta e)"
proof
  show "computeRaw (field payload ''info'') (previousTotals st) = Some r \<and>
        zeroDelta (convertToDelta r)
      \<longrightarrow> sessionEvents (tokenCount entry payload st) = sessionEvents st"
    by (simp add: tokenCount_events emitted_def split: option.splits)
  have "\<forall>e\<in>set (sessionEvents (foldl (processLine rt) initialParseState lines)). \<not> zeroDelta e"
    by (rule parse_events_invariant) (simp_all add: emitted_not_zero initialParseState_def)
  then show "\<forall>e\<in>set (events (parseSession rt path lines)). \<not> zeroDelta e"
    by (simp add: parseSession_events)
qed

theorem zero_delta_produces_no_event_witness:
  "computeRaw (field (field repeatedTotals ''payload'') ''info'') (previousTotals seenTotals)
     = Some (rawUsage 0 0 0 0 0) \<and>
   zeroDelta (convertToDelta (rawUsage 0 0 0 0 0)) \<and>
   sessionEvents (tokenCount repeatedTotals (field repeatedTotals ''payload'') seenTotals)
     = sessionEvents seenTotals \<and>
   list_all (\<lambda>e. \<not> zeroDelta e)
     (events (parseSession exampleRuntime ''a.jsonl'' [repeatedTotals, repeatedTotals]))"
proof -
  have h: "computeRaw (field (field repeatedTotals ''payload'') ''info'')
             (previousTotals seenTotals) = Some (rawUsage 0 0 0 0 0) \<and>
           zeroDelta (convertToDelta (rawUsage 0 0 0 0 0))"
    by code_simp
  show ?thesis
    using h zero_delta_produces_no_event
      [of "field repeatedTotals ''payload''" seenTotals "rawUsage 0 0 0 0 0" repeatedTotals
          exampleRuntime "''a.jsonl''" "[repeatedTotals, repeatedTotals]"]
    unfolding list_all_iff by blast
qed

section \<open>The invariant of usage deltas\<close>

lemma normalize_nonneg:
  "nonNegativeCounters v \<Longrightarrow> normalizeRawUsage v = Some r \<Longrightarrow>
   0 \<le> input_tokens r \<and> 0 \<le> cached_input_tokens r \<and> 0 \<le> output_tokens r \<and>
   0 \<le> reasoning_output_tokens r"
  by (auto simp: nonNegativeCounters_def normalizeRawUsage_def Let_def split: if_splits)

lemma subtract_nonneg:
  "0 \<le> input_tokens (subtractRawUsage c p) \<and> 0 \<le> cached_input_tokens (subtractRawUsage c p) \<and>
   0 \<le> output_tokens (subtractRawUsage c p) \<and>
   0 \<le> reasoning_output_tokens (subtractRawUsage c p)"
  by (simp add: subtractRawUsage_def)

lemma computeRaw_nonneg:
  "nonNegativeCounters (field info ''last_token_usage'') \<Longrightarrow> computeRaw info prev = Some r \<Longrightarrow>
   0 \<le> input_tokens r \<and> 0 \<le> cached_input_tokens r \<and> 0 \<le> output_tokens r \<and>
   0 \<le> reasoning_output_tokens r"
  using normalize_nonneg [of "field info ''last_token_usage''" r] subtract_nonneg
  by (auto simp: computeRaw_def Let_def split: option.splits)

lemma convertToDelta_nonneg:
  "0 \<le> input_tokens r \<and> 0 \<le> cached_input_tokens r \<and> 0 \<le> output_tokens r \<and>
   0 \<le> reasoning_output_tokens r \<Longrightarrow>
   0 \<le> inputTokens (convertToDelta r) \<and> 0 \<le> cachedInputTokens (convertToDelta r) \<and>
   0 \<le> outputTokens (convertToDelta r) \<and> 0 \<le> reasoningOutputTokens (convertToDelta r) \<and>
   0 \<le> totalTokens (convertToDelta r)"
  by (simp add: convertToDelta_def Let_def)

lemma emitted_nonneg:
  assumes "nonNegativeCounters (lastTokenUsage entry)"
      and "e \<in> set (emitted entry (field entry ''payload'') st)"
  shows "nonNegativeDelta e"
proof -
  from assms(2) obtain ts r m where
    r: "computeRaw (field (field entry ''payload'') ''info'') (previousTotals st) = Some r"
    and e: "e = mkEvent (convertToDelta r) ts m"
    by (auto simp: emitted_def split: option.splits if_splits)
  have "0 \<le> input_tokens r \<and> 0 \<le> cached_input_tokens r \<and> 0 \<le> output_tokens r \<and>
        0 \<le> reasoning_output_tokens r"
    using computeRaw_nonneg [OF _ r] assms(1) by (simp add: lastTokenUsage_def)
  from convertToDelta_nonneg [OF this] show ?thesis
    by (simp add: e mkEvent_def nonNegativeDelta_def)
qed

lemma emitted_cached:
  "e \<in> set (emitted entry payload st) \<Longrightarrow> cachedInputTokens e \<le> inputTokens e"
  by (auto simp: emitted_def mkEvent_def convertToDelta_def Let_def split: option.splits if_splits)

lemma computeRaw_total:
  assumes "computeRaw info previous = Some r"
  shows "totalTokens (convertToDelta r) =
           (if 0 < reportedTotal info previous then reportedTotal info previous
            else input_tokens r + output_tokens r)"
proof (cases "isObject (field info ''last_token_usage'')")
  case True
  with assms show ?thesis
    by (auto simp: computeRaw_def normalizeRawUsage_def reportedTotal_def convertToDelta_def
          Let_def)
next
  case False
  with assms show ?thesis
    by (auto simp: computeRaw_def normalizeRawUsage_def [of "field info ''last_token_usage''"]
          reportedTotal_def convertToDelta_def subtractRawUsage_def Let_def
          split: option.splits)
qed

lemma emitted_total:
  assumes "e \<in> set (emitted entry payload st)"
  shows "field entry ''timestamp'' = Some (timestamp e) \<and>
         totalTokens e =
           (if 0 < reportedTotal (field payload ''info'') (previousTotals st)
            then reportedTotal (field payload ''info'') (previousTotals st)
            else inputTokens e + outputTokens e)"
proof -
  from assms obtain ts where t: "field entry ''timestamp'' = Some ts"
    by (cases "field entry ''timestamp''") (auto simp: emitted_def)
  from assms t obtain r where
    r: "computeRaw (field payload ''info'') (previousTotals st) = Some r"
    by (cases "computeRaw (field payload ''info'') (previousTotals st)")
       (auto simp: emitted_def split: if_splits)
  from assms t r obtain m where e: "e = mkEvent (convertToDelta r) ts m"
    by (auto simp: emitted_def split: if_splits)
  show ?thesis
    using computeRaw_total [OF r] t
    by (simp add: e mkEvent_def) (simp add: convertToDelta_def Let_def)
qed

text \<open>Every event of the session was added for one of its lines, in the state that the
  lines before it leave.\<close>

lemma parse_events_origin:
  "\<forall>e\<in>set (sessionEvents (foldl (processLine rt) st0 lines)).
     e \<in> set (sessionEvents st0) \<or>
     (\<exists>before l after.
        lines = before @ l # after \<and>
        e \<in> set (emitted l (field l ''payload'') (foldl (processLine rt) st0 before)))"
proof (induction lines rule: rev_induct)
  case Nil
  then show ?case by simp
next
  case (snoc l ls)
  show ?case
  proof
    fix e
    assume e: "e \<in> set (sessionEvents (foldl (processLine rt) st0 (ls @ [l])))"
    let ?st = "foldl (processLine rt) st0 ls"
    from e processLine_events [of rt ?st l]
    consider "e \<in> set (sessionEvents ?st)" | "e \<in> set (emitted l (field l ''payload'') ?st)"
      by auto
    then show "e \<in> set (sessionEvents st0) \<or>
       (\<exists>before l' after.
          ls @ [l] = before @ l' # after \<and>
          e \<in> set (emitted l' (field l' ''payload'') (foldl (processLine rt) st0 before)))"
    proof cases
      case 1
      with snoc.IH consider "e \<in> set (sessionEvents st0)"
        | before l' after where "ls = before @ l' # after"
            "e \<in> set (emitted l' (field l' ''payload'') (foldl (processLine rt) st0 before))"
        by blast
      then show ?thesis
      proof cases
        case 1
        then show ?thesis by simp
      next
        case 2
        then have "ls @ [l] = before @ l' # (after @ [l])" by simp
        with 2(2) show ?thesis by blast
      qed
    next
      case 2
      have "ls @ [l] = ls @ l # []" by simp
      with 2 show ?thesis by blast
    qed
  qed
qed

lemma parse_events_total:
  "\<forall>e\<in>set (events (parseSession rt path lines)).
     \<exists>before l after.
       lines = before @ l # after \<and>
       field l ''timestamp'' = Some (timestamp e) \<and>
       totalTokens e =
         (if 0 < reportedTotal (field (field l ''payload'') ''info'')
                  (previousTotals (foldl (processLine rt) initialParseState before))
          then reportedTotal (field (field l ''payload'') ''info'')
                 (previousTotals (foldl (processLine rt) initialParseState before))
          else inputTokens e + outputTokens e)"
proof
  fix e
  assume "e \<in> set (events (parseSession rt path lines))"
  then have "e \<in> set (sessionEvents (foldl (processLine rt) initialParseState lines))"
    by (simp add: parseSession_events)
  with parse_events_origin [of rt initialParseState lines]
  obtain before l after where l: "lines = before @ l # after"
    and e: "e \<in> set (emitted l (field l ''payload'')
                        (foldl (processLine rt) initialParseState before))"
    by (auto simp: initialParseState_def)
  from emitted_total [OF e] l
  show "\<exists>before l after.
       lines = before @ l # after \<and>
       field l ''timestamp'' = Some (timestamp e) \<and>
       totalTokens e =
         (if 0 < reportedTotal (field (field l ''payload'') ''info'')
                  (previousTotals (foldl (processLine rt) initialParseState before))
          then reportedTotal (field (field l ''payload'') ''info'')
                 (previousTotals (foldl (processLine rt) initialParseState before))
          else inputTokens e + outputTokens e)"
    by blast
qed

lemma tokenCount_delta:
  assumes "truthy (field entry ''timestamp'')"
      and "computeRaw (field payload ''info'') (previousTotals st) = Some r"
      and "\<not> zeroDelta (convertToDelta r)"
  shows "\<exists>e. sessionEvents (tokenCount entry payload st) = sessionEvents st @ [e] \<and>
             inputTokens e = input_tokens r \<and>
             cachedInputTokens e = min (cached_input_tokens r) (input_tokens r) \<and>
             outputTokens e = output_tokens r \<and>
             reasoningOutputTokens e = reasoning_output_tokens r \<and>
             totalTokens e =
               (if 0 < reportedTotal (field payload ''info'') (previousTotals st)
                then reportedTotal (field payload ''info'') (previousTotals st)
                else inputTokens e + outputTokens e)"
proof -
  from assms(1) obtain ts where t: "field entry ''timestamp'' = Some ts" "truthy (Some ts)"
    by (cases "field entry ''timestamp''") auto
  let ?e = "mkEvent (convertToDelta r) ts
              (fst (resolveModel (extractModel (withInfo payload (field payload ''info'')))
                      (afterTotals (field payload ''info'') st)))"
  have em: "emitted entry payload st = [?e]"
    using t assms(2,3) by (simp add: emitted_def)
  then have "?e \<in> set (emitted entry payload st)" by simp
  from emitted_total [OF this] have
    "totalTokens ?e =
       (if 0 < reportedTotal (field payload ''info'') (previousTotals st)
        then reportedTotal (field payload ''info'') (previousTotals st)
        else inputTokens ?e + outputTokens ?e)"
    by simp
  moreover have "sessionEvents (tokenCount entry payload st) = sessionEvents st @ [?e]"
    by (simp add: tokenCount_events em)
  moreover have "inputTokens ?e = input_tokens r \<and>
             cachedInputTokens ?e = min (cached_input_tokens r) (input_tokens r) \<and>
             outputTokens ?e = output_tokens r \<and>
             reasoningOutputTokens ?e = reasoning_output_tokens r"
    by (simp add: mkEvent_def convertToDelta_def Let_def)
  ultimately show ?thesis by blast
qed

text \<open>
  C2, as stated, fails: a direct delta with a negative counter is passed on
  as it is. The record \<open>negativeDelta\<close> reports \<open>input_tokens = -5\<close> and the session's
  only event has \<open>inputTokens = -5\<close>.
\<close>

theorem negative_counter_counterexample:
  "map inputTokens (events (parseSession exampleRuntime ''a.jsonl'' [negativeDelta])) = [- 5]"
  by code_simp

text \<open>
  C2, amended. When the four component counters of every direct delta
  (\<open>last_token_usage\<close>) in the file are not negative, the five token fields of every
  event of the parsed session are not negative; deltas computed from cumulative totals
  need no such condition. For arbitrary values, every event of the parsed session has
  cached input tokens at most its input tokens, and it was added for a line of the file
  whose timestamp it carries and whose reported total, against the totals last seen in
  the lines before it, is the event's total when positive, the total being input plus
  output of the event otherwise. Step by step: a
  \<open>token_count\<close> record with a timestamp whose raw usage is not a zero delta adds one
  event, with the input, output and reasoning counters of the raw usage, the smaller of
  its cached and input counters, and that total.
\<close>

theorem usage_delta_invariant:
  "((\<forall>l\<in>set lines. nonNegativeCounters (lastTokenUsage l)) \<longrightarrow>
      (\<forall>e\<in>set (events (parseSession rt path lines)). nonNegativeDelta e)) \<and>
   (\<forall>e\<in>set (events (parseSession rt path lines)).
      cachedInputTokens e \<le> inputTokens e \<and>
      (\<exists>before l after.
         lines = before @ l # after \<and>
         field l ''timestamp'' = Some (timestamp e) \<and>
         totalTokens e =
           (if 0 < reportedTotal (field (field l ''payload'') ''info'')
                    (previousTotals (foldl (processLine rt) initialParseState before))
            then reportedTotal (field (field l ''payload'') ''info'')
                   (previousTotals (foldl (processLine rt) initialParseState before))
            else inputTokens e + outputTokens e))) \<and>
   (truthy (field entry ''timestamp'') \<and>
    computeRaw (field payload ''info'') (previousTotals st) = Some r \<and>
    \<not> zeroDelta (convertToDelta r) \<longrightarrow>
      (\<exists>e. sessionEvents (tokenCount entry payload st) = sessionEvents st @ [e] \<and>
           inputTokens e = input_tokens r \<and>
           cachedInputTokens e = min (cached_input_tokens r) (input_tokens r) \<and>
           outputTokens e = output_tokens r \<and>
           reasoningOutputTokens e = reasoning_output_tokens r \<and>
           totalTokens e =
             (if 0 < reportedTotal (field payload ''info'') (previousTotals st)
              then reportedTotal (field payload ''info'') (previousTotals st)
              else inputTokens e + outputTokens e)))"
proof (intro conjI impI)
  assume h: "\<forall>l\<in>set lines. nonNegativeCounters (lastTokenUsage l)"
  have "\<forall>e\<in>set (sessionEvents (foldl (processLine rt) initialParseState lines)).
          nonNegativeDelta e"
    by (rule parse_events_invariant)
       (use h emitted_nonneg in \<open>auto simp: initialParseState_def\<close>)
  then show "\<forall>e\<in>set (events (parseSession rt path lines)). nonNegativeDelta e"
    by (simp add: parseSession_events)
next
  have "\<forall>e\<in>set (sessionEvents (foldl (processLine rt) initialParseState lines)).
          cachedInputTokens e \<le> inputTokens e"
    by (rule parse_events_invariant) (simp_all add: emitted_cached initialParseState_def)
  then have "\<forall>e\<in>set (events (parseSession rt path lines)). cachedInputTokens e \<le> inputTokens e"
    by (simp add: parseSession_events)
  with parse_events_total [of rt path lines]
  show "\<forall>e\<in>set (events (parseSession rt path lines)).
      cachedInputTokens e \<le> inputTokens e \<and>
      (\<exists>before l after.
         lines = before @ l # after \<and>
         field l ''timestamp'' = Some (timestamp e) \<and>
         totalTokens e =
           (if 0 < reportedTotal (field (field l ''payload'') ''info'')
                    (previousTotals (foldl (processLine rt) initialParseState before))
            then reportedTotal (field (field l ''payload'') ''info'')
                   (previousTotals (foldl (processLine rt) initialParseState before))
            else inputTokens e + outputTokens e))"
    by blast
next
  assume "truthy (field entry ''timestamp'') \<and>
    computeRaw (field payload ''info'') (previousTotals st) = Some r \<and>
    \<not> zeroDelta (convertToDelta r)"
  then show "\<exists>e. sessionEvents (tokenCount entry payload st) = sessionEvents st @ [e] \<and>
           inputTokens e = input_tokens r \<and>
           cachedInputTokens e = min (cached_input_tokens r) (input_tokens r) \<and>
           outputTokens e = output_tokens r \<and>
           reasoningOutputTokens e = reasoning_output_tokens r \<and>
           totalTokens e =
             (if 0 < reportedTotal (field payload ''info'') (previousTotals st)
              then reportedTotal (field payload ''info'') (previousTotals st)
              else inputTokens e + outputTokens e)"
    using tokenCount_delta by blast
qed

theorem usage_delta_invariant_witness:
  "list_all (\<lambda>l. nonNegativeCounters (lastTokenUsage l)) directDeltas \<and>
   list_all nonNegativeDelta (events (parseSession exampleRuntime ''a.jsonl'' directDeltas)) \<and>
   list_all (\<lambda>e. cachedInputTokens e \<le> inputTokens e)
     (events (parseSession exampleRuntime ''a.jsonl'' directDeltas)) \<and>
   map totalTokens (events (parseSession exampleRuntime ''a.jsonl'' directDeltas)) = [15, 9] \<and>
   truthy (field (last directDeltas) ''timestamp'') \<and>
   computeRaw (field (field (last directDeltas) ''payload'') ''info'')
     (previousTotals initialParseState) = Some (rawUsage 3 0 2 0 9) \<and>
   \<not> zeroDelta (convertToDelta (rawUsage 3 0 2 0 9)) \<and>
   map totalTokens
     (sessionEvents (tokenCount (last directDeltas) (field (last directDeltas) ''payload'')
                       initialParseState)) = [9]"
proof -
  have h: "\<forall>l\<in>set directDeltas. nonNegativeCounters (lastTokenUsage l)"
    by code_simp
  have t: "map totalTokens (events (parseSession exampleRuntime ''a.jsonl'' directDeltas))
             = [15, 9]"
    by code_simp
  have a: "truthy (field (last directDeltas) ''timestamp'')"
    by code_simp
  have b: "computeRaw (field (field (last directDeltas) ''payload'') ''info'')
             (previousTotals initialParseState) = Some (rawUsage 3 0 2 0 9)"
    by code_simp
  have c: "\<not> zeroDelta (convertToDelta (rawUsage 3 0 2 0 9))"
    by code_simp
  have d: "reportedTotal (field (field (last directDeltas) ''payload'') ''info'')
             (previousTotals initialParseState) = 9"
    by code_simp
  have e: "sessionEvents initialParseState = []"
    by (simp add: initialParseState_def)
  note u = usage_delta_invariant
      [of directDeltas exampleRuntime "''a.jsonl''" "last directDeltas"
          "field (last directDeltas) ''payload''" initialParseState "rawUsage 3 0 2 0 9"]
  from u a b c obtain ev where
    "sessionEvents (tokenCount (last directDeltas) (field (last directDeltas) ''payload'')
                       initialParseState) = sessionEvents initialParseState @ [ev]"
    "totalTokens ev =
       (if 0 < reportedTotal (field (field (last directDeltas) ''payload'') ''info'')
                 (previousTotals initialParseState)
        then reportedTotal (field (field (last directDeltas) ''payload'') ''info'')
               (previousTotals initialParseState)
        else inputTokens ev + outputTokens ev)"
    by blast
  then have s: "map totalTokens
     (sessionEvents (tokenCount (last directDeltas) (field (last directDeltas) ''payload'')
                       initialParseState)) = [9]"
    by (simp add: d e)
  show ?thesis
    using h t a b c s u
    unfolding list_all_iff by blast
qed

section \<open>Cumulative totals\<close>

lemma resolveModel_totals: "previousTotals (snd (resolveModel x st)) = previousTotals st"
  by (simp add: resolveModel_def Let_def orElse_def split: option.splits)

lemma tokenCount_totals:
  "truthy (field entry ''timestamp'') \<Longrightarrow>
   previousTotals (tokenCount entry payload st)
     = previousTotals (afterTotals (field payload ''info'') st)"
  by (auto simp: tokenCount_def afterTotals_def Let_def resolveModel_totals case_prod_beta
        split: option.splits)

lemma afterTotals_Some:
  "normalizeRawUsage (field info ''total_token_usage'') = Some cur \<Longrightarrow>
   previousTotals (afterTotals info st) = Some cur"
  by (simp add: afterTotals_def)

lemma computeRaw_cumulative:
  "normalizeRawUsage (field info ''last_token_usage'') = None \<Longrightarrow>
   normalizeRawUsage (field info ''total_token_usage'') = Some cur \<Longrightarrow>
   computeRaw info prev = Some (subtractRawUsage cur prev)"
  by (simp add: computeRaw_def)

lemma zeroDelta_subtract:
  "zeroDelta (convertToDelta (subtractRawUsage cur prev)) \<longleftrightarrow>
   max (input_tokens cur - prevField input_tokens prev) 0 = 0 \<and>
   max (output_tokens cur - prevField output_tokens prev) 0 = 0 \<and>
   max (reasoning_output_tokens cur - prevField reasoning_output_tokens prev) 0 = 0"
  by (auto simp: zeroDelta_def convertToDelta_def subtractRawUsage_def Let_def)

text \<open>
  C4, as stated, fails twice. After totals with 90 input and 20 cached
  tokens, a record with 100 and 80 has a cached difference of 60, and the event carries
  10 cached tokens: the cached field is cut to the input field. And a record that
  carries \<open>total_token_usage\<close> but no timestamp leaves the last-seen totals as they
  were.
\<close>

theorem cumulative_delta_counterexample:
  "cached_input_tokens (subtractRawUsage (rawUsage 100 80 0 0 100) (previousTotals seenCache)) = 60 \<and>
   map cachedInputTokens
     (sessionEvents (tokenCount cacheTotals (field cacheTotals ''payload'') seenCache)) = [10] \<and>
   normalizeRawUsage (field (field (field untimedTotals ''payload'') ''info'') ''total_token_usage'')
     = Some (rawUsage 100 0 50 0 150) \<and>
   previousTotals (tokenCount untimedTotals (field untimedTotals ''payload'') initialParseState)
     = None"
  by code_simp

text \<open>
  C4, amended. For a \<open>token_count\<close> record with a timestamp that carries
  \<open>total_token_usage\<close>: the last-seen totals become these totals, also when a direct
  delta was present; and when the record carries no \<open>last_token_usage\<close>, with
  \<open>d f = max (current f - previous f) 0\<close> for each field \<open>f\<close>, no event is added when the
  input, output and reasoning differences are all zero, and otherwise one event is
  added whose input, output and reasoning tokens are \<open>d\<close> of these fields, whose cached
  input tokens are the smaller of the cached and the input difference, and whose total
  is the total difference when positive and input plus output difference otherwise.
\<close>

theorem cumulative_delta:
  "truthy (field entry ''timestamp'') \<and>
   normalizeRawUsage (field (field payload ''info'') ''total_token_usage'') = Some cur \<longrightarrow>
     previousTotals (tokenCount entry payload st) = Some cur \<and>
     (normalizeRawUsage (field (field payload ''info'') ''last_token_usage'') = None \<longrightarrow>
        (let d = (\<lambda>f. max (f cur - prevField f (previousTotals st)) 0) in
         if d input_tokens = 0 \<and> d output_tokens = 0 \<and> d reasoning_output_tokens = 0
         then sessionEvents (tokenCount entry payload st) = sessionEvents st
         else \<exists>e. sessionEvents (tokenCount entry payload st) = sessionEvents st @ [e] \<and>
                  inputTokens e = d input_tokens \<and>
                  outputTokens e = d output_tokens \<and>
                  reasoningOutputTokens e = d reasoning_output_tokens \<and>
                  cachedInputTokens e = min (d cached_input_tokens) (d input_tokens) \<and>
                  totalTokens e = (if 0 < d total_tokens then d total_tokens
                                   else d input_tokens + d output_tokens)))"
proof (intro impI, elim conjE, intro conjI impI)
  assume ts: "truthy (field entry ''timestamp'')"
     and cur: "normalizeRawUsage (field (field payload ''info'') ''total_token_usage'') = Some cur"
  show "previousTotals (tokenCount entry payload st) = Some cur"
    by (simp add: tokenCount_totals [OF ts] afterTotals_Some [OF cur])
  assume last: "normalizeRawUsage (field (field payload ''info'') ''last_token_usage'') = None"
  obtain t where t: "field entry ''timestamp'' = Some t" "truthy (Some t)"
    using ts by (cases "field entry ''timestamp''") auto
  have raw: "computeRaw (field payload ''info'') (previousTotals st)
               = Some (subtractRawUsage cur (previousTotals st))"
    by (rule computeRaw_cumulative [OF last cur])
  show "let d = (\<lambda>f. max (f cur - prevField f (previousTotals st)) 0) in
         if d input_tokens = 0 \<and> d output_tokens = 0 \<and> d reasoning_output_tokens = 0
         then sessionEvents (tokenCount entry payload st) = sessionEvents st
         else \<exists>e. sessionEvents (tokenCount entry payload st) = sessionEvents st @ [e] \<and>
                  inputTokens e = d input_tokens \<and>
                  outputTokens e = d output_tokens \<and>
                  reasoningOutputTokens e = d reasoning_output_tokens \<and>
                  cachedInputTokens e = min (d cached_input_tokens) (d input_tokens) \<and>
                  totalTokens e = (if 0 < d total_tokens then d total_tokens
                                   else d input_tokens + d output_tokens)"
  proof (cases "zeroDelta (convertToDelta (subtractRawUsage cur (previousTotals st)))")
    case True
    then show ?thesis
      using zeroDelta_subtract [of cur "previousTotals st"]
      by (simp add: tokenCount_events emitted_def t raw Let_def)
  next
    case False
    then show ?thesis
      using zeroDelta_subtract [of cur "previousTotals st"]
      by (simp add: tokenCount_events emitted_def t raw Let_def mkEvent_def convertToDelta_def
            subtractRawUsage_def)
  qed
qed

theorem cumulative_delta_witness:
  "truthy (field nextTotals ''timestamp'') \<and>
   normalizeRawUsage (field (field (field nextTotals ''payload'') ''info'') ''total_token_usage'')
     = Some (rawUsage 150 0 80 0 230) \<and>
   normalizeRawUsage (field (field (field nextTotals ''payload'') ''info'') ''last_token_usage'')
     = None \<and>
   previousTotals (tokenCount nextTotals (field nextTotals ''payload'') seenTotals)
     = Some (rawUsage 150 0 80 0 230) \<and>
   (\<exists>e. sessionEvents (tokenCount nextTotals (field nextTotals ''payload'') seenTotals) = [e] \<and>
        inputTokens e = 50 \<and> outputTokens e = 30 \<and> totalTokens e = 80)"
proof -
  have h: "truthy (field nextTotals ''timestamp'')"
      "normalizeRawUsage
         (field (field (field nextTotals ''payload'') ''info'') ''total_token_usage'')
       = Some (rawUsage 150 0 80 0 230)"
      "normalizeRawUsage
         (field (field (field nextTotals ''payload'') ''info'') ''last_token_usage'') = None"
    by code_simp+
  have v: "previousTotals seenTotals = Some (rawUsage 100 0 50 0 150)"
      "sessionEvents seenTotals = []"
    by (simp_all add: seenTotals_def initialParseState_def)
  show ?thesis
    using h cumulative_delta
      [where entry = nextTotals and payload = "field nextTotals ''payload''"
         and cur = "rawUsage 150 0 80 0 230" and st = seenTotals]
    by (auto simp: v Let_def prevField_def rawUsage_def)
qed

section \<open>Model resolution\<close>

lemma field_not_object: "\<not> isObject v \<Longrightarrow> field v k = None"
  by (cases "(v, k)" rule: field.cases) auto

lemma field_Some_object: "field v k = Some x \<Longrightarrow> \<exists>kvs. v = Some (JObj kvs)"
  by (cases "(v, k)" rule: field.cases) auto

lemma orElse_simps [simp]: "orElse None b = b" "orElse (Some x) b = Some x"
  by (simp_all add: orElse_def)

lemma orElse_assoc: "orElse (orElse a b) c = orElse a (orElse b c)"
  by (simp add: orElse_def split: option.splits)

lemma extractModel_chain:
  "extractModel v =
     orElse (asNonEmptyString (field (field v ''info'') ''model''))
       (orElse (asNonEmptyString (field (field v ''info'') ''model_name''))
          (orElse (asNonEmptyString (field (field (field v ''info'') ''metadata'') ''model''))
             (orElse (asNonEmptyString (field v ''model''))
                (asNonEmptyString (field (field v ''metadata'') ''model'')))))"
  by (simp add: extractModel_def Let_def field_not_object orElse_assoc)

lemma asNonEmptyString_nonempty: "asNonEmptyString v = Some m \<Longrightarrow> m \<noteq> []"
  by (cases v rule: asNonEmptyString.cases) (auto split: if_splits)

lemma extractModel_nonempty: "extractModel v = Some m \<Longrightarrow> m \<noteq> []"
  unfolding extractModel_chain
  by (auto simp: orElse_def dest: asNonEmptyString_nonempty split: option.splits)

lemma map_of_filter_key:
  "map_of (filter (\<lambda>kv. fst kv \<noteq> a) xs) k = (if k = a then None else map_of xs k)"
  by (induction xs) auto

text \<open>The copy of the payload that line 218 builds has the fields of the payload.\<close>

lemma withInfo_field:
  "field (withInfo (Some (JObj kvs)) (field (Some (JObj kvs)) ''info'')) k
     = field (Some (JObj kvs)) k"
  by (auto simp: withInfo_def Let_def rev_filter map_of_filter_key split: option.splits)

lemma extractModel_withInfo:
  "extractModel (withInfo (Some (JObj kvs)) (field (Some (JObj kvs)) ''info''))
     = extractModel (Some (JObj kvs))"
  by (simp only: extractModel_chain withInfo_field)

lemma tokenCount_emit:
  assumes "field entry ''timestamp'' = Some t" "truthy (Some t)"
      and "computeRaw (field payload ''info'') (previousTotals st) = Some r"
      and "\<not> zeroDelta (convertToDelta r)"
  shows "tokenCount entry payload st =
     (let R = resolveModel (extractModel (withInfo payload (field payload ''info'')))
                (afterTotals (field payload ''info'') st)
      in (snd R)\<lparr>sessionEvents :=
                  sessionEvents (snd R) @ [mkEvent (convertToDelta r) t (fst R)]\<rparr>)"
  using assms
  by (simp add: tokenCount_def afterTotals_def mkEvent_def Let_def case_prod_beta
        split: option.splits)

lemma afterTotals_tracker:
  "currentModel (afterTotals info st) = currentModel st"
  "currentModelIsFallback (afterTotals info st) = currentModelIsFallback st"
  "sessionEvents (afterTotals info st) = sessionEvents st"
  by (simp_all add: afterTotals_def split: option.splits)

text \<open>
  C9. The model that \<open>extractModel\<close> finds is the first non-empty string (after
  trimming) among \<open>info.model\<close>, \<open>info.model_name\<close>, \<open>info.metadata.model\<close>, \<open>model\<close>
  and \<open>metadata.model\<close>. A \<open>token_count\<close> record that adds an event gives it (a) the
  model extracted from its payload, which becomes the current model with the fallback
  flag cleared; else (b) the current model, tracker unchanged; else (c) the legacy
  fallback model, which becomes the current model with the fallback flag set.
\<close>

theorem model_resolution:
  "extractModel v =
     orElse (asNonEmptyString (field (field v ''info'') ''model''))
       (orElse (asNonEmptyString (field (field v ''info'') ''model_name''))
          (orElse (asNonEmptyString (field (field (field v ''info'') ''metadata'') ''model''))
             (orElse (asNonEmptyString (field v ''model''))
                (asNonEmptyString (field (field v ''metadata'') ''model''))))) \<and>
   (field payload ''type'' = Some (JStr ''token_count'') \<and>
    truthy (field entry ''timestamp'') \<and>
    computeRaw (field payload ''info'') (previousTotals st) = Some r \<and>
    \<not> zeroDelta (convertToDelta r) \<longrightarrow>
      (\<exists>e. sessionEvents (tokenCount entry payload st) = sessionEvents st @ [e] \<and>
         (case extractModel payload of
            Some m \<Rightarrow>
              model e = m \<and> currentModel (tokenCount entry payload st) = Some m \<and>
              \<not> currentModelIsFallback (tokenCount entry payload st)
          | None \<Rightarrow>
              if strTruthy (currentModel st) then
                Some (model e) = currentModel st \<and>
                currentModel (tokenCount entry payload st) = currentModel st \<and>
                currentModelIsFallback (tokenCount entry payload st) = currentModelIsFallback st
              else
                model e = LEGACY_FALLBACK_MODEL \<and>
                currentModel (tokenCount entry payload st) = Some LEGACY_FALLBACK_MODEL \<and>
                currentModelIsFallback (tokenCount entry payload st))))"
proof (intro conjI impI, goal_cases)
  case 1
  show ?case by (rule extractModel_chain)
next
  case 2
  then obtain kvs where p: "payload = Some (JObj kvs)"
    using field_Some_object by blast
  from 2 obtain t where t: "field entry ''timestamp'' = Some t" "truthy (Some t)"
    by (cases "field entry ''timestamp''") auto
  have x: "extractModel (withInfo payload (field payload ''info'')) = extractModel payload"
    unfolding p by (rule extractModel_withInfo)
  have tc: "tokenCount entry payload st =
     (let R = resolveModel (extractModel payload) (afterTotals (field payload ''info'') st)
      in (snd R)\<lparr>sessionEvents :=
                  sessionEvents (snd R) @ [mkEvent (convertToDelta r) t (fst R)]\<rparr>)"
    using tokenCount_emit [OF t] 2 x by simp
  show ?case
    unfolding tc
    using extractModel_nonempty [of payload]
    by (auto simp: Let_def resolveModel_def afterTotals_tracker mkEvent_def strTruthy_def
          split: option.splits)
qed

theorem model_resolution_witness:
  "field (field namedModel ''payload'') ''type'' = Some (JStr ''token_count'') \<and>
   truthy (field namedModel ''timestamp'') \<and>
   computeRaw (field (field namedModel ''payload'') ''info'') (previousTotals initialParseState)
     = Some (rawUsage 10 4 5 0 15) \<and>
   \<not> zeroDelta (convertToDelta (rawUsage 10 4 5 0 15)) \<and>
   extractModel (field namedModel ''payload'') = Some ''o3'' \<and>
   (\<exists>e. sessionEvents (tokenCount namedModel (field namedModel ''payload'') initialParseState)
          = [e] \<and> model e = ''o3'') \<and>
   currentModel (tokenCount namedModel (field namedModel ''payload'') initialParseState)
     = Some ''o3''"
proof -
  have h: "field (field namedModel ''payload'') ''type'' = Some (JStr ''token_count'')"
      "truthy (field namedModel ''timestamp'')"
      "computeRaw (field (field namedModel ''payload'') ''info'')
         (previousTotals initialParseState) = Some (rawUsage 10 4 5 0 15)"
      "\<not> zeroDelta (convertToDelta (rawUsage 10 4 5 0 15))"
      "extractModel (field namedModel ''payload'') = Some ''o3''"
    by code_simp+
  have v: "sessionEvents initialParseState = []"
    by (simp add: initialParseState_def)
  show ?thesis
    using h model_resolution
      [where v = None and payload = "field namedModel ''payload''" and entry = namedModel
         and st = initialParseState and r = "rawUsage 10 4 5 0 15", THEN conjunct2]
    by (auto simp: v)
qed

section \<open>Common prefixes and the largest overlap\<close>

lemma commonPrefixLoop_lcp:
  "index \<le> length left \<Longrightarrow> index \<le> length right \<Longrightarrow>
   commonPrefixLoop left right index
     = index + length (longest_common_prefix (drop index left) (drop index right))"
proof (induction left right index rule: commonPrefixLoop.induct)
  case (1 left right index)
  show ?case
  proof (cases "index < min (length left) (length right) \<and> left ! index = right ! index")
    case True
    have l: "drop index left = left ! index # drop (Suc index) left"
      using True Cons_nth_drop_Suc [of index left] by simp
    have r: "drop index right = left ! index # drop (Suc index) right"
      using True Cons_nth_drop_Suc [of index right] by simp
    have "commonPrefixLoop left right index = commonPrefixLoop left right (index + 1)"
      using True by (subst commonPrefixLoop.simps) simp
    also have "\<dots> = index + 1
        + length (longest_common_prefix (drop (index + 1) left) (drop (index + 1) right))"
      using True by (intro "1.IH") simp_all
    finally show ?thesis by (simp add: l r)
  next
    case False
    have "longest_common_prefix (drop index left) (drop index right) = []"
    proof (cases "index < min (length left) (length right)")
      case True
      with False have ne: "left ! index \<noteq> right ! index" by simp
      from True have "drop index left = left ! index # drop (Suc index) left"
        "drop index right = right ! index # drop (Suc index) right"
        using Cons_nth_drop_Suc [of index left] Cons_nth_drop_Suc [of index right] by simp_all
      with ne show ?thesis by simp
    next
      case False
      with "1.prems" have "drop index left = [] \<or> drop index right = []" by auto
      then show ?thesis by auto
    qed
    moreover have "commonPrefixLoop left right index = index"
      using False by (subst commonPrefixLoop.simps) auto
    ultimately show ?thesis by simp
  qed
qed

text \<open>The loop computes the length of the longest common prefix.\<close>

lemma commonPrefixLength_lcp:
  "commonPrefixLength left right = length (longest_common_prefix left right)"
  by (simp add: commonPrefixLength_def commonPrefixLoop_lcp)

lemma commonPrefixLength_le: "commonPrefixLength s c \<le> length s"
  by (simp add: commonPrefixLength_lcp prefix_length_le longest_common_prefix_prefix1)

lemma commonPrefixLength_Nil [simp]:
  "commonPrefixLength s [] = 0" "commonPrefixLength [] c = 0"
  by (simp_all add: commonPrefixLength_lcp)

lemma Max_insert_fold:
  "finite A \<Longrightarrow> Max (insert (b::nat) (insert a A)) = max a (Max (insert b A))"
  by (simp add: insert_commute)

text \<open>Skipping empty candidates and stopping at a full match do not change the maximum.\<close>

lemma overlapLoop_Max:
  "best \<le> length s \<Longrightarrow>
   overlapLoop s cs best = Max (insert best (commonPrefixLength s ` set cs))"
proof (induction cs arbitrary: best)
  case Nil
  then show ?case by simp
next
  case (Cons c cs)
  let ?A = "commonPrefixLength s ` set cs"
  have fin: "finite ?A" by simp
  have step: "Max (insert best (commonPrefixLength s ` set (c # cs)))
                = max (commonPrefixLength s c) (Max (insert best ?A))"
    using Max_insert_fold [OF fin] by simp
  have ub: "Max (insert best ?A) \<le> length s"
    using Cons.prems commonPrefixLength_le by auto
  have lb: "best \<le> Max (insert best ?A)"
    by simp
  show ?case
  proof (cases "length c = 0")
    case True
    then show ?thesis using Cons step by simp
  next
    case nonempty: False
    show ?thesis
    proof (cases "commonPrefixLength s c > best")
      case True
      show ?thesis
      proof (cases "commonPrefixLength s c = length s")
        case full: True
        then show ?thesis using nonempty True step ub by (simp add: Let_def max_def)
      next
        case False
        have "overlapLoop s (c # cs) best = overlapLoop s cs (commonPrefixLength s c)"
          using nonempty True False by (simp add: Let_def)
        also have "\<dots> = Max (insert (commonPrefixLength s c) ?A)"
          by (rule Cons.IH) (rule commonPrefixLength_le)
        also have "\<dots> = max best (Max (insert (commonPrefixLength s c) ?A))"
        proof -
          have "commonPrefixLength s c \<le> Max (insert (commonPrefixLength s c) ?A)"
            by (rule Max_ge) simp_all
          with True show ?thesis by linarith
        qed
        also have "\<dots> = Max (insert best (insert (commonPrefixLength s c) ?A))"
          by simp
        finally show ?thesis by simp
      qed
    next
      case False
      then have "overlapLoop s (c # cs) best = overlapLoop s cs best"
        using nonempty by (simp add: Let_def)
      also have "\<dots> = Max (insert best ?A)"
        by (rule Cons.IH) (rule Cons.prems)
      finally show ?thesis using step False lb by (simp add: max_def)
    qed
  qed
qed

lemma findLargestPrefixOverlap_Max:
  "findLargestPrefixOverlap s cs = Max (insert 0 (commonPrefixLength s ` set cs))"
proof (cases "length s = 0 \<or> length cs = 0")
  case True
  then have "insert 0 (commonPrefixLength s ` set cs) = {0}"
    by auto
  then have "Max (insert 0 (commonPrefixLength s ` set cs)) = 0"
    by (simp only: Max_singleton)
  then show ?thesis using True by (simp add: findLargestPrefixOverlap_def)
next
  case False
  then show ?thesis by (simp add: findLargestPrefixOverlap_def overlapLoop_Max)
qed

lemma shouldApplyForkDedup_iff:
  "shouldApplyForkDedup overlap n \<longleftrightarrow> 3 \<le> overlap \<and> (n \<le> 4 \<longrightarrow> overlap = n)"
  by (auto simp: shouldApplyForkDedup_def FORK_PREFIX_MIN_MATCH_def)

section \<open>The merge step\<close>

lemma countMessage_fields:
  "mergedEvents (countMessage rt st m) = mergedEvents st"
  "priorSessionsByCwd (countMessage rt st m) = priorSessionsByCwd st"
  "sessionsById (countMessage rt st m) = sessionsById st"
  "totalMessages (countMessage rt st m) = totalMessages st + 1"
  by (simp_all add: countMessage_def Let_def)

lemma countMessages_fields:
  "mergedEvents (foldl (countMessage rt) st ms) = mergedEvents st"
  "priorSessionsByCwd (foldl (countMessage rt) st ms) = priorSessionsByCwd st"
  "sessionsById (foldl (countMessage rt) st ms) = sessionsById st"
  "totalMessages (foldl (countMessage rt) st ms) = totalMessages st + int (length ms)"
  by (induction ms arbitrary: st) (simp_all add: countMessage_fields)

lemma countMessages_activity_cong:
  "dailyActivity st' = dailyActivity st \<Longrightarrow>
   dailyActivity (foldl (countMessage rt) st' ms) = dailyActivity (foldl (countMessage rt) st ms)"
  by (induction ms arbitrary: st st') (simp_all add: countMessage_def Let_def)

text \<open>The start indexes depend on the two indexes of earlier sessions only.\<close>

lemma forkDedup_cong:
  assumes "sessionsById st' = sessionsById st" "priorSessionsByCwd st' = priorSessionsByCwd st"
  shows "forkDedup st' s = forkDedup st s"
  unfolding forkDedup_def parentSession_def previousSessions_def assms by (rule refl)

lemma beforeDedup_fields:
  "mergedEvents (beforeDedup st s) = mergedEvents st"
  "priorSessionsByCwd (beforeDedup st s) = priorSessionsByCwd st"
  "sessionsById (beforeDedup st s) = sessionsById st"
  "totalMessages (beforeDedup st s) = totalMessages st"
  "dailyActivity (beforeDedup st s) = dailyActivity st"
  by (simp_all add: beforeDedup_def Let_def split: option.splits)

lemma forkDedup_before: "forkDedup (beforeDedup st session) session = forkDedup st session"
  by (rule forkDedup_cong) (simp_all add: beforeDedup_fields)

lemma mergeSession_events:
  "mergedEvents (mergeSession rt st s)
     = mergedEvents st @ drop (fst (snd (forkDedup st s))) (events s)"
  by (simp add: mergeSession_def forkDedup_before case_prod_beta Let_def countMessages_fields
        beforeDedup_fields split: option.splits)

lemma mergeSession_messages:
  "totalMessages (mergeSession rt st s)
     = totalMessages st + int (length (drop (fst (forkDedup st s)) (userMessages s)))"
  by (simp add: mergeSession_def forkDedup_before case_prod_beta Let_def countMessages_fields
        beforeDedup_fields split: option.splits)

lemma mergeSession_prior:
  "priorSessionsByCwd (mergeSession rt st s) = snd (snd (forkDedup st s))"
  by (simp add: mergeSession_def forkDedup_before case_prod_beta Let_def countMessages_fields
        beforeDedup_fields split: option.splits)

lemma mergeSession_byId:
  "sessionsById (mergeSession rt st s)
     = (case sessionId s of
          None \<Rightarrow> sessionsById st
        | Some i \<Rightarrow> if i \<noteq> [] then (sessionsById st)(i \<mapsto> sigsOf s) else sessionsById st)"
  by (simp add: mergeSession_def forkDedup_before case_prod_beta Let_def countMessages_fields
        beforeDedup_fields strTruthy_def split: option.splits)

lemma mergeSession_activity:
  "dailyActivity (mergeSession rt st s)
     = dailyActivity (foldl (countMessage rt) st (drop (fst (forkDedup st s)) (userMessages s)))"
proof -
  have "dailyActivity (mergeSession rt st s)
     = dailyActivity (foldl (countMessage rt)
         ((beforeDedup st s)\<lparr>priorSessionsByCwd := snd (snd (forkDedup st s))\<rparr>)
         (drop (fst (forkDedup st s)) (userMessages s)))"
    by (simp add: mergeSession_def forkDedup_before case_prod_beta Let_def split: option.splits)
  also have "\<dots> = dailyActivity (foldl (countMessage rt) st
                       (drop (fst (forkDedup st s)) (userMessages s)))"
    by (rule countMessages_activity_cong) (simp add: beforeDedup_fields)
  finally show ?thesis .
qed

lemma forkDedup_parent:
  "parentSession st s = Some parent \<Longrightarrow>
   forkDedup st s =
     (length (longest_common_prefix (messageSignatures s) (messageSignatures parent)),
      length (longest_common_prefix (tokenSignatures s) (tokenSignatures parent)),
      priorSessionsByCwd st)"
  by (simp add: forkDedup_def commonPrefixLength_lcp)

lemma forkDedup_heuristic:
  assumes "parentSession st s = None" "cwd s = Some c" "truthy (Some c)"
  shows "forkDedup st s =
     (guarded (Max (insert 0 (commonPrefixLength (messageSignatures s) `
                 set (map messageSignatures (previousSessions st c)))))
        (length (messageSignatures s)),
      guarded (Max (insert 0 (commonPrefixLength (tokenSignatures s) `
                 set (map tokenSignatures (previousSessions st c)))))
        (length (tokenSignatures s)),
      (priorSessionsByCwd st)(c \<mapsto> previousSessions st c @ [sigsOf s]))"
  using assms
  by (simp add: forkDedup_def Let_def findLargestPrefixOverlap_Max shouldApplyForkDedup_iff
        guarded_def del: set_map)

section \<open>The example sessions, evaluated\<close>

lemma sessionA_eval:
  "sessionA =
     \<lparr> messageSignatures = map exampleSignature [''m1'', ''m2'', ''m3''],
       tokenSignatures = [''o3|10|0|5|0|15''],
       filePath = ''a.jsonl'', cwd = Some (JStr ''/proj''), sessionId = Some ''A'',
       forkedFromId = None, sessionDate = Some (Num 1000),
       userMessages = [exampleMessage 1001 ''m1'', exampleMessage 1002 ''m2'',
                       exampleMessage 1003 ''m3''],
       events = [exampleEvent 1004 10 5] \<rparr>"
  by code_simp

lemma sessionB_eval:
  "sessionB =
     \<lparr> messageSignatures = map exampleSignature [''m1'', ''m2'', ''m3'', ''m4''],
       tokenSignatures = [''o3|10|0|5|0|15'', ''o3|7|0|3|0|10''],
       filePath = ''b.jsonl'', cwd = Some (JStr ''/proj''), sessionId = Some ''B'',
       forkedFromId = Some ''A'', sessionDate = Some (Num 2000),
       userMessages = [exampleMessage 1001 ''m1'', exampleMessage 1002 ''m2'',
                       exampleMessage 1003 ''m3'', exampleMessage 2001 ''m4''],
       events = [exampleEvent 1004 10 5, exampleEvent 2002 7 3] \<rparr>"
  by code_simp

lemma sessionC_eval:
  "sessionC =
     \<lparr> messageSignatures = map exampleSignature [''m1'', ''m2'', ''m3'', ''m4''],
       tokenSignatures = [],
       filePath = ''c.jsonl'', cwd = Some (JStr ''/proj''), sessionId = None,
       forkedFromId = None, sessionDate = Some (Num 3000),
       userMessages = [exampleMessage 1001 ''m1'', exampleMessage 1002 ''m2'',
                       exampleMessage 1003 ''m3'', exampleMessage 2001 ''m4''],
       events = [] \<rparr>"
  by code_simp

lemma sessionD_eval:
  "sessionD =
     \<lparr> messageSignatures = map exampleSignature [''m1'', ''m2'', ''m3'', ''x'', ''y''],
       tokenSignatures = [],
       filePath = ''d.jsonl'', cwd = Some (JStr ''/proj''), sessionId = None,
       forkedFromId = None, sessionDate = Some (Num 4000),
       userMessages = [exampleMessage 1001 ''m1'', exampleMessage 1002 ''m2'',
                       exampleMessage 1003 ''m3'', exampleMessage 4001 ''x'',
                       exampleMessage 4002 ''y''],
       events = [] \<rparr>"
  by code_simp

lemma exampleSignature_eq [simp]: "exampleSignature a = exampleSignature b \<longleftrightarrow> a = b"
  by (simp add: exampleSignature_def)

text \<open>Every time of the first day falls on the first of January 1970.\<close>

lemma day_key:
  assumes "0 \<le> t" "t < 86400000"
  shows "formatDateKey exampleRuntime (dateParse exampleRuntime (JNum t)) = ''1970-01-01''"
proof -
  from assms have d: "t div 86400000 = 0" by simp
  have s: "showInt 1970 = ''1970''" "padStart2 (showInt 1) = ''01''"
    by code_simp+
  show ?thesis
    by (simp add: formatDateKey_def exampleRuntime_def getFullYear_def getMonth_def getDate_def
          Let_def d s)
qed

lemmas merge_eval =
  mergeSession_def beforeDedup_def forkDedup_def parentSession_def previousSessions_def
  setAdd_def Let_def strTruthy_def findLargestPrefixOverlap_Max shouldApplyForkDedup_iff
  commonPrefixLength_lcp countMessage_def exampleMessage_def day_key activityGet_def sigsOf_def

lemma afterA_eval:
  "afterA =
     \<lparr> mergedEvents = [exampleEvent 1004 10 5], dailyActivity = [(''1970-01-01'', 3)],
       totalMessages = 3, totalSessions = 3, projects = [JStr ''/proj''],
       earliestSessionDate = Some (Num 1000),
       priorSessionsByCwd = Map.empty(JStr ''/proj'' \<mapsto> [sigsOf sessionA]),
       sessionsById = Map.empty(''A'' \<mapsto> sigsOf sessionA) \<rparr>"
  unfolding afterA_def
  by (simp add: sessionA_eval initialMergeState_def merge_eval)

lemma afterAB_eval:
  "afterAB =
     \<lparr> mergedEvents = [exampleEvent 1004 10 5, exampleEvent 2002 7 3],
       dailyActivity = [(''1970-01-01'', 4)],
       totalMessages = 4, totalSessions = 3, projects = [JStr ''/proj''],
       earliestSessionDate = Some (Num 1000),
       priorSessionsByCwd = Map.empty(JStr ''/proj'' \<mapsto> [sigsOf sessionA]),
       sessionsById = Map.empty(''A'' \<mapsto> sigsOf sessionA, ''B'' \<mapsto> sigsOf sessionB) \<rparr>"
  unfolding afterAB_def afterA_eval
  by (simp add: sessionA_eval sessionB_eval merge_eval)

lemma forkDedup_C:
  "forkDedup afterAB sessionC =
     (0, 0, Map.empty(JStr ''/proj'' \<mapsto> [sigsOf sessionA, sigsOf sessionC]))"
  unfolding afterAB_eval
  by (simp add: sessionA_eval sessionB_eval sessionC_eval merge_eval)

lemma forkDedup_D:
  "forkDedup afterA sessionD =
     (3, 0, Map.empty(JStr ''/proj'' \<mapsto> [sigsOf sessionA, sigsOf sessionD]))"
  unfolding afterA_eval
  by (simp add: sessionA_eval sessionD_eval merge_eval)

lemma sortedSessions_threeFiles:
  "sortedSessions exampleRuntime threeFiles = [sessionA, sessionB, sessionC]"
proof -
  have p: "map (\<lambda>(path, lines). parseSession exampleRuntime path lines) threeFiles
             = [sessionB, sessionA, sessionC]"
    by (simp add: threeFiles_def sessionA_def sessionB_def sessionC_def)
  have d: "sessionDate sessionA = Some (Num 1000)" "sessionDate sessionB = Some (Num 2000)"
    "sessionDate sessionC = Some (Num 3000)"
    by (simp_all add: sessionA_eval sessionB_eval sessionC_eval)
  show ?thesis
    unfolding sortedSessions_def p
    by (simp add: sortBy_def sortCompare_def compareSessionsByDate_def d)
qed

lemma merged_threeFiles:
  "foldl (mergeSession exampleRuntime) (initialMergeState (length threeFiles))
     (sortedSessions exampleRuntime threeFiles)
   = \<lparr> mergedEvents = [exampleEvent 1004 10 5, exampleEvent 2002 7 3],
       dailyActivity = [(''1970-01-01'', 8)],
       totalMessages = 8, totalSessions = 3, projects = [JStr ''/proj''],
       earliestSessionDate = Some (Num 1000),
       priorSessionsByCwd = Map.empty(JStr ''/proj'' \<mapsto> [sigsOf sessionA, sigsOf sessionC]),
       sessionsById = Map.empty(''A'' \<mapsto> sigsOf sessionA, ''B'' \<mapsto> sigsOf sessionB) \<rparr>"
proof -
  have "foldl (mergeSession exampleRuntime) (initialMergeState (length threeFiles))
          (sortedSessions exampleRuntime threeFiles)
        = mergeSession exampleRuntime afterAB sessionC"
  proof -
    have "length threeFiles = 3" by (simp add: threeFiles_def)
    then show ?thesis
      by (simp add: sortedSessions_threeFiles afterAB_def afterA_def)
  qed
  also have "\<dots> = \<lparr> mergedEvents = [exampleEvent 1004 10 5, exampleEvent 2002 7 3],
       dailyActivity = [(''1970-01-01'', 8)],
       totalMessages = 8, totalSessions = 3, projects = [JStr ''/proj''],
       earliestSessionDate = Some (Num 1000),
       priorSessionsByCwd = Map.empty(JStr ''/proj'' \<mapsto> [sigsOf sessionA, sigsOf sessionC]),
       sessionsById = Map.empty(''A'' \<mapsto> sigsOf sessionA, ''B'' \<mapsto> sigsOf sessionB) \<rparr>"
    unfolding afterAB_eval
    by (simp add: sessionA_eval sessionB_eval sessionC_eval merge_eval)
  finally show ?thesis .
qed

lemma collect_threeFiles:
  "collectCodexUsageData exampleRuntime threeFiles
   = \<lparr> mergedEvents = [exampleEvent 1004 10 5, exampleEvent 2002 7 3],
       dailyActivity = [(''1970-01-01'', 8)],
       totalMessages = 8, totalSessions = 3, projects = [JStr ''/proj''],
       earliestSessionDate = Some (Num 1000) \<rparr>"
  unfolding collectCodexUsageData_def merged_threeFiles
  by (simp add: threeFiles_def sortBy_def sortCompare_def compareEvents_def exampleEvent_def
        exampleRuntime_def)

section \<open>Explicit parents\<close>

text \<open>
  C6. When the session declares a forked-from id under which an earlier session is
  recorded, the merge drops from its events as many leading ones as the longest common
  prefix of its token signatures with the parent's has elements, and counts its user
  messages after as many leading ones as the longest common prefix of the message
  signatures has; no threshold applies, and the two lengths are independent.
\<close>

theorem explicit_fork_dedup:
  "forkedFromId s = Some f \<and> f \<noteq> [] \<and> sessionsById st f = Some parent \<longrightarrow>
     (let m = length (longest_common_prefix (messageSignatures s) (messageSignatures parent));
          t = length (longest_common_prefix (tokenSignatures s) (tokenSignatures parent))
      in mergedEvents (mergeSession rt st s) = mergedEvents st @ drop t (events s) \<and>
         totalMessages (mergeSession rt st s)
           = totalMessages st + int (length (drop m (userMessages s))) \<and>
         dailyActivity (mergeSession rt st s)
           = dailyActivity (foldl (countMessage rt) st (drop m (userMessages s))))"
proof (intro impI, elim conjE)
  assume "forkedFromId s = Some f" "f \<noteq> []" "sessionsById st f = Some parent"
  then have "parentSession st s = Some parent"
    by (simp add: parentSession_def)
  from forkDedup_parent [OF this]
  show "let m = length (longest_common_prefix (messageSignatures s) (messageSignatures parent));
          t = length (longest_common_prefix (tokenSignatures s) (tokenSignatures parent))
      in mergedEvents (mergeSession rt st s) = mergedEvents st @ drop t (events s) \<and>
         totalMessages (mergeSession rt st s)
           = totalMessages st + int (length (drop m (userMessages s))) \<and>
         dailyActivity (mergeSession rt st s)
           = dailyActivity (foldl (countMessage rt) st (drop m (userMessages s)))"
    by (simp add: Let_def mergeSession_events mergeSession_messages mergeSession_activity)
qed

theorem explicit_fork_dedup_witness:
  "forkedFromId sessionB = Some ''A'' \<and>
   sessionsById afterA ''A'' = Some (sigsOf sessionA) \<and>
   length (longest_common_prefix (messageSignatures sessionB)
             (messageSignatures (sigsOf sessionA))) = 3 \<and>
   length (longest_common_prefix (tokenSignatures sessionB)
             (tokenSignatures (sigsOf sessionA))) = 1 \<and>
   mergedEvents (mergeSession exampleRuntime afterA sessionB)
     = mergedEvents afterA @ drop 1 (events sessionB) \<and>
   totalMessages (mergeSession exampleRuntime afterA sessionB) = totalMessages afterA + 1"
proof -
  have h: "forkedFromId sessionB = Some ''A''"
      "sessionsById afterA ''A'' = Some (sigsOf sessionA)"
      "length (longest_common_prefix (messageSignatures sessionB)
                 (messageSignatures (sigsOf sessionA))) = 3"
      "length (longest_common_prefix (tokenSignatures sessionB)
                 (tokenSignatures (sigsOf sessionA))) = 1"
      "length (drop 3 (userMessages sessionB)) = 1"
    by (simp_all add: afterA_eval sigsOf_def sessionA_eval sessionB_eval)
  show ?thesis
    using h explicit_fork_dedup
      [where s = sessionB and f = "''A''" and st = afterA and parent = "sigsOf sessionA"
         and rt = exampleRuntime]
    by (simp add: Let_def)
qed

section \<open>The same-directory heuristic\<close>

text \<open>
  C5, as stated, fails on the candidates: a session whose explicit parent
  was found is not recorded among the candidates of its directory. B (forked from A) and
  C lie in the same directory, C has no declared parent and has exactly the four
  messages of B, and 4 passes the guard for a sequence of 4; yet C is compared with A
  only, the overlap 3 is refused, and none of C's messages is discarded: the run counts
  3 + 1 + 4 = 8 messages.
\<close>

theorem heuristic_candidates_counterexample:
  "map filePath (sortedSessions exampleRuntime threeFiles) = [''a.jsonl'', ''b.jsonl'', ''c.jsonl''] \<and>
   cwd sessionB = cwd sessionC \<and>
   parentSession afterAB sessionC = None \<and>
   commonPrefixLength (messageSignatures sessionC) (messageSignatures sessionB) = 4 \<and>
   shouldApplyForkDedup 4 (length (messageSignatures sessionC)) \<and>
   fst (forkDedup afterAB sessionC) = 0 \<and>
   totalMessages (collectCodexUsageData exampleRuntime threeFiles) = 8"
proof -
  have "map filePath (sortedSessions exampleRuntime threeFiles)
          = [''a.jsonl'', ''b.jsonl'', ''c.jsonl'']"
    unfolding sortedSessions_threeFiles
    by (simp add: sessionA_eval sessionB_eval sessionC_eval)
  moreover have "cwd sessionB = cwd sessionC"
    "parentSession afterAB sessionC = None"
    "commonPrefixLength (messageSignatures sessionC) (messageSignatures sessionB) = 4"
    "shouldApplyForkDedup 4 (length (messageSignatures sessionC))"
    by (simp_all add: parentSession_def commonPrefixLength_lcp shouldApplyForkDedup_iff
          sessionB_eval sessionC_eval)
  moreover have "fst (forkDedup afterAB sessionC) = 0"
    by (simp add: forkDedup_C)
  moreover have "totalMessages (collectCodexUsageData exampleRuntime threeFiles) = 8"
    by (simp add: collect_threeFiles)
  ultimately show ?thesis by simp
qed

text \<open>
  C5, amended. For a session with no matching explicit parent but a known working
  directory, the deduplicator computes the maximum common-prefix length of each of its
  signature sequences against every session on that directory's candidate list
  (\<open>findLargestPrefixOverlap\<close> stops early at a full-length match, which is that
  maximum), and applies that overlap as the discard count if and only if it is at least 3
  and, for a sequence of at most 4 elements, equal to the sequence's length; otherwise
  nothing is discarded. The session then joins the candidate list of its directory,
  whereas a session whose explicit parent was found joins none: the candidates are the
  earlier sessions of the directory that were processed without a matching parent.
\<close>

theorem heuristic_fork_dedup:
  "(parentSession st s = None \<and> cwd s = Some c \<and> truthy (Some c) \<longrightarrow>
     (let candidates = previousSessions st c;
          messageOverlap =
            Max (insert 0 ((\<lambda>p. length (longest_common_prefix (messageSignatures s)
                                           (messageSignatures p))) ` set candidates));
          tokenOverlap =
            Max (insert 0 ((\<lambda>p. length (longest_common_prefix (tokenSignatures s)
                                           (tokenSignatures p))) ` set candidates));
          m = (if 3 \<le> messageOverlap \<and>
                  (length (messageSignatures s) \<le> 4 \<longrightarrow>
                     messageOverlap = length (messageSignatures s))
               then messageOverlap else 0);
          t = (if 3 \<le> tokenOverlap \<and>
                  (length (tokenSignatures s) \<le> 4 \<longrightarrow> tokenOverlap = length (tokenSignatures s))
               then tokenOverlap else 0)
      in findLargestPrefixOverlap (messageSignatures s) (map messageSignatures candidates)
           = messageOverlap \<and>
         findLargestPrefixOverlap (tokenSignatures s) (map tokenSignatures candidates)
           = tokenOverlap \<and>
         totalMessages (mergeSession rt st s)
           = totalMessages st + int (length (drop m (userMessages s))) \<and>
         dailyActivity (mergeSession rt st s)
           = dailyActivity (foldl (countMessage rt) st (drop m (userMessages s))) \<and>
         mergedEvents (mergeSession rt st s) = mergedEvents st @ drop t (events s) \<and>
         previousSessions (mergeSession rt st s) c = candidates @ [sigsOf s])) \<and>
   (parentSession st s = Some parent \<longrightarrow>
      previousSessions (mergeSession rt st s) = previousSessions st)"
proof (intro conjI impI)
  assume "parentSession st s = Some parent"
  then show "previousSessions (mergeSession rt st s) = previousSessions st"
    by (simp add: previousSessions_def mergeSession_prior forkDedup_parent fun_eq_iff)
next
  assume "parentSession st s = None \<and> cwd s = Some c \<and> truthy (Some c)"
  then have a: "parentSession st s = None" "cwd s = Some c" "truthy (Some c)"
    by simp_all
  have i: "commonPrefixLength x ` set (map g ps)
             = (\<lambda>p. length (longest_common_prefix x (g p))) ` set ps"
    for x :: "string list" and g :: "SessionDedupSignatures \<Rightarrow> string list" and ps
    by (auto simp: commonPrefixLength_lcp)
  have p: "previousSessions (mergeSession rt st s) c = previousSessions st c @ [sigsOf s]"
    by (simp add: previousSessions_def mergeSession_prior forkDedup_heuristic [OF a])
  show "let candidates = previousSessions st c;
          messageOverlap =
            Max (insert 0 ((\<lambda>p. length (longest_common_prefix (messageSignatures s)
                                           (messageSignatures p))) ` set candidates));
          tokenOverlap =
            Max (insert 0 ((\<lambda>p. length (longest_common_prefix (tokenSignatures s)
                                           (tokenSignatures p))) ` set candidates));
          m = (if 3 \<le> messageOverlap \<and>
                  (length (messageSignatures s) \<le> 4 \<longrightarrow>
                     messageOverlap = length (messageSignatures s))
               then messageOverlap else 0);
          t = (if 3 \<le> tokenOverlap \<and>
                  (length (tokenSignatures s) \<le> 4 \<longrightarrow> tokenOverlap = length (tokenSignatures s))
               then tokenOverlap else 0)
      in findLargestPrefixOverlap (messageSignatures s) (map messageSignatures candidates)
           = messageOverlap \<and>
         findLargestPrefixOverlap (tokenSignatures s) (map tokenSignatures candidates)
           = tokenOverlap \<and>
         totalMessages (mergeSession rt st s)
           = totalMessages st + int (length (drop m (userMessages s))) \<and>
         dailyActivity (mergeSession rt st s)
           = dailyActivity (foldl (countMessage rt) st (drop m (userMessages s))) \<and>
         mergedEvents (mergeSession rt st s) = mergedEvents st @ drop t (events s) \<and>
         previousSessions (mergeSession rt st s) c = candidates @ [sigsOf s]"
    unfolding Let_def mergeSession_events mergeSession_messages mergeSession_activity p
      forkDedup_heuristic [OF a] findLargestPrefixOverlap_Max i guarded_def
    by simp
qed

theorem heuristic_fork_dedup_witness:
  "parentSession afterA sessionD = None \<and>
   cwd sessionD = Some (JStr ''/proj'') \<and>
   truthy (Some (JStr ''/proj'')) \<and>
   length (messageSignatures sessionD) = 5 \<and>
   previousSessions afterA (JStr ''/proj'') = [sigsOf sessionA] \<and>
   findLargestPrefixOverlap (messageSignatures sessionD)
     (map messageSignatures (previousSessions afterA (JStr ''/proj''))) = 3 \<and>
   totalMessages (mergeSession exampleRuntime afterA sessionD) = totalMessages afterA + 2 \<and>
   previousSessions (mergeSession exampleRuntime afterA sessionD) (JStr ''/proj'')
     = [sigsOf sessionA, sigsOf sessionD] \<and>
   parentSession afterA sessionB = Some (sigsOf sessionA) \<and>
   previousSessions (mergeSession exampleRuntime afterA sessionB) = previousSessions afterA"
proof -
  have h: "parentSession afterA sessionD = None"
      "cwd sessionD = Some (JStr ''/proj'')"
      "truthy (Some (JStr ''/proj''))"
      "length (messageSignatures sessionD) = 5"
      "length (userMessages sessionD) = 5"
    by (simp_all add: parentSession_def sessionD_eval)
  have c: "previousSessions afterA (JStr ''/proj'') = [sigsOf sessionA]"
    by (simp add: previousSessions_def afterA_eval)
  have e: "Max (insert 0 ((\<lambda>p. length (longest_common_prefix (messageSignatures sessionD)
                                           (messageSignatures p))) `
                  set (previousSessions afterA (JStr ''/proj'')))) = 3"
    unfolding c by (simp add: sigsOf_def sessionA_eval sessionD_eval)
  have p: "parentSession afterA sessionB = Some (sigsOf sessionA)"
    by (simp add: parentSession_def afterA_eval sessionB_eval)
  have d: "previousSessions (mergeSession exampleRuntime afterA sessionD) (JStr ''/proj'')
             = [sigsOf sessionA, sigsOf sessionD] \<and>
           totalMessages (mergeSession exampleRuntime afterA sessionD) = totalMessages afterA + 2 \<and>
           findLargestPrefixOverlap (messageSignatures sessionD)
             (map messageSignatures (previousSessions afterA (JStr ''/proj''))) = 3"
    using h e c heuristic_fork_dedup
      [where s = sessionD and st = afterA and c = "JStr ''/proj''" and rt = exampleRuntime
         and parent = "sigsOf sessionA"]
    by (simp add: Let_def)
  have b: "previousSessions (mergeSession exampleRuntime afterA sessionB) = previousSessions afterA"
    using p heuristic_fork_dedup
      [where s = sessionB and st = afterA and c = "JStr ''/proj''" and rt = exampleRuntime
         and parent = "sigsOf sessionA"]
    by blast
  show ?thesis using h c d p b by simp
qed

section \<open>What the merge records\<close>

text \<open>
  C3, as stated, fails for a session whose explicit parent was found: the
  directory's candidate list is extended only in the branch of the heuristic. B lies in
  \<open>/proj\<close> and is forked from A; after A and B the list of \<open>/proj\<close> holds the signatures
  of A alone.
\<close>

theorem candidates_counterexample:
  "cwd sessionB = Some (JStr ''/proj'') \<and>
   priorSessionsByCwd afterAB (JStr ''/proj'') = Some [sigsOf sessionA] \<and>
   sigsOf sessionB \<noteq> sigsOf sessionA"
  by (simp add: afterAB_eval sigsOf_def sessionA_eval sessionB_eval)

text \<open>
  C3, amended. After the deduplicator processes a session, the session's signature
  sequences are recorded under its session id when it has one; and when no explicit
  parent was found for it and it has a known working directory, they are appended to that
  directory's candidate list. When its explicit parent was found, the candidate lists are
  left as they were.
\<close>

theorem signatures_recorded:
  "(sessionId s = Some i \<and> i \<noteq> [] \<longrightarrow> sessionsById (mergeSession rt st s) i = Some (sigsOf s)) \<and>
   (parentSession st s = None \<and> cwd s = Some c \<and> truthy (Some c) \<longrightarrow>
      priorSessionsByCwd (mergeSession rt st s) c = Some (previousSessions st c @ [sigsOf s])) \<and>
   (parentSession st s = Some parent \<longrightarrow>
      priorSessionsByCwd (mergeSession rt st s) = priorSessionsByCwd st)"
proof (intro conjI impI)
  assume "sessionId s = Some i \<and> i \<noteq> []"
  then show "sessionsById (mergeSession rt st s) i = Some (sigsOf s)"
    by (simp add: mergeSession_byId)
next
  assume "parentSession st s = None \<and> cwd s = Some c \<and> truthy (Some c)"
  then show "priorSessionsByCwd (mergeSession rt st s) c
               = Some (previousSessions st c @ [sigsOf s])"
    by (simp add: mergeSession_prior forkDedup_heuristic)
next
  assume "parentSession st s = Some parent"
  then show "priorSessionsByCwd (mergeSession rt st s) = priorSessionsByCwd st"
    by (simp add: mergeSession_prior forkDedup_parent)
qed

theorem signatures_recorded_witness:
  "sessionId sessionA = Some ''A'' \<and>
   parentSession (initialMergeState 3) sessionA = None \<and>
   cwd sessionA = Some (JStr ''/proj'') \<and>
   truthy (Some (JStr ''/proj'')) \<and>
   previousSessions (initialMergeState 3) (JStr ''/proj'') = [] \<and>
   sessionsById afterA ''A'' = Some (sigsOf sessionA) \<and>
   priorSessionsByCwd afterA (JStr ''/proj'') = Some [sigsOf sessionA] \<and>
   parentSession afterA sessionB = Some (sigsOf sessionA) \<and>
   priorSessionsByCwd afterAB = priorSessionsByCwd afterA"
proof -
  have h: "sessionId sessionA = Some ''A''"
      "parentSession (initialMergeState 3) sessionA = None"
      "cwd sessionA = Some (JStr ''/proj'')"
      "truthy (Some (JStr ''/proj''))"
      "previousSessions (initialMergeState 3) (JStr ''/proj'') = []"
    by (simp_all add: parentSession_def previousSessions_def initialMergeState_def sessionA_eval)
  have p: "parentSession afterA sessionB = Some (sigsOf sessionA)"
    by (simp add: parentSession_def afterA_eval sessionB_eval)
  show ?thesis
    using h p
      signatures_recorded
        [where s = sessionA and st = "initialMergeState 3" and i = "''A''"
           and c = "JStr ''/proj''" and rt = exampleRuntime and parent = "sigsOf sessionA"]
      signatures_recorded
        [where s = sessionB and st = afterA and i = "''B''"
           and c = "JStr ''/proj''" and rt = exampleRuntime and parent = "sigsOf sessionA"]
    by (simp add: afterA_def [symmetric] afterAB_def [symmetric])
qed

section \<open>Records copied from an earlier session\<close>

lemma shared_prefix_le:
  assumes "k \<le> length a" "k \<le> length b" "take k a = take k b"
  shows "k \<le> commonPrefixLength a b"
proof -
  have "prefix (take k a) a"
    by (rule take_is_prefix)
  moreover have "prefix (take k a) b"
    unfolding assms(3) by (rule take_is_prefix)
  ultimately have "prefix (take k a) (longest_common_prefix a b)"
    by (rule longest_common_prefix_max_prefix)
  then have "length (take k a) \<le> length (longest_common_prefix a b)"
    by (rule prefix_length_le)
  then show ?thesis using assms(1) by (simp add: commonPrefixLength_lcp)
qed

lemma guarded_shared:
  assumes k: "k \<le> length a" "k \<le> length (g p)" "take k a = take k (g p)"
      and p: "p \<in> set ps"
      and guard: "3 \<le> k" "length a \<le> 4 \<longrightarrow> k = length a"
  shows "k \<le> guarded (Max (insert 0 (commonPrefixLength a ` set (map g ps)))) (length a)"
proof -
  let ?M = "Max (insert 0 (commonPrefixLength a ` set (map g ps)))"
  have "commonPrefixLength a (g p) \<le> ?M"
    using p by (intro Max_ge) auto
  then have lo: "k \<le> ?M"
    using shared_prefix_le [OF k] by simp
  have hi: "?M \<le> length a"
    by (intro Max.boundedI) (auto simp: commonPrefixLength_le)
  have "k \<le> M \<Longrightarrow> M \<le> length a \<Longrightarrow> k \<le> guarded M (length a)" for M
    using guard by (auto simp: guarded_def)
  from this [OF lo hi] show ?thesis .
qed

lemma message_index_covers:
  assumes "sharedWith st s p (messageSignatures s) (messageSignatures p) k"
  shows "k \<le> fst (forkDedup st s)"
proof (cases "parentSession st s")
  case None
  with assms obtain c where a: "cwd s = Some c" "truthy (Some c)"
    and p: "p \<in> set (previousSessions st c)"
    by (auto simp: sharedWith_def split: option.splits)
  from assms None have k: "k \<le> length (messageSignatures s)"
      "k \<le> length (messageSignatures p)"
      "take k (messageSignatures s) = take k (messageSignatures p)"
    and g: "3 \<le> k" "length (messageSignatures s) \<le> 4 \<longrightarrow> k = length (messageSignatures s)"
    by (simp_all add: sharedWith_def)
  show ?thesis
    using guarded_shared [of k "messageSignatures s" messageSignatures p, OF k p g]
    by (simp add: forkDedup_heuristic [OF None a])
next
  case (Some q)
  with assms have "q = p" "k \<le> length (messageSignatures s)"
      "k \<le> length (messageSignatures p)"
      "take k (messageSignatures s) = take k (messageSignatures p)"
    by (simp_all add: sharedWith_def)
  then show ?thesis
    using Some shared_prefix_le [of k "messageSignatures s" "messageSignatures p"]
    by (simp add: forkDedup_def)
qed

lemma token_index_covers:
  assumes "sharedWith st s p (tokenSignatures s) (tokenSignatures p) k"
  shows "k \<le> fst (snd (forkDedup st s))"
proof (cases "parentSession st s")
  case None
  with assms obtain c where a: "cwd s = Some c" "truthy (Some c)"
    and p: "p \<in> set (previousSessions st c)"
    by (auto simp: sharedWith_def split: option.splits)
  from assms None have k: "k \<le> length (tokenSignatures s)"
      "k \<le> length (tokenSignatures p)"
      "take k (tokenSignatures s) = take k (tokenSignatures p)"
    and g: "3 \<le> k" "length (tokenSignatures s) \<le> 4 \<longrightarrow> k = length (tokenSignatures s)"
    by (simp_all add: sharedWith_def)
  show ?thesis
    using guarded_shared [of k "tokenSignatures s" tokenSignatures p, OF k p g]
    by (simp add: forkDedup_heuristic [OF None a])
next
  case (Some q)
  with assms have "q = p" "k \<le> length (tokenSignatures s)"
      "k \<le> length (tokenSignatures p)"
      "take k (tokenSignatures s) = take k (tokenSignatures p)"
    by (simp_all add: sharedWith_def)
  then show ?thesis
    using Some shared_prefix_le [of k "tokenSignatures s" "tokenSignatures p"]
    by (simp add: forkDedup_def)
qed

lemma commonPrefix_shared:
  "commonPrefixLength a b \<le> length a \<and> commonPrefixLength a b \<le> length b \<and>
   take (commonPrefixLength a b) a = take (commonPrefixLength a b) b"
proof -
  let ?l = "longest_common_prefix a b"
  have "prefix ?l a" "prefix ?l b"
    by (rule longest_common_prefix_prefix1, rule longest_common_prefix_prefix2)
  then obtain xs ys where "a = ?l @ xs" "b = ?l @ ys"
    by (auto simp: prefix_def)
  then have "length ?l \<le> length a \<and> length ?l \<le> length b \<and>
             take (length ?l) a = ?l \<and> take (length ?l) b = ?l"
    by (metis append_eq_conv_conj le_add1 length_append)
  then show ?thesis by (simp add: commonPrefixLength_lcp)
qed

lemma guarded_candidate:
  assumes "0 < guarded (Max (insert 0 (commonPrefixLength a ` set (map g ps)))) (length a)"
  shows "\<exists>p\<in>set ps.
           guarded (Max (insert 0 (commonPrefixLength a ` set (map g ps)))) (length a)
             = commonPrefixLength a (g p) \<and>
           3 \<le> commonPrefixLength a (g p) \<and>
           (length a \<le> 4 \<longrightarrow> commonPrefixLength a (g p) = length a)"
proof -
  let ?S = "insert 0 (commonPrefixLength a ` set (map g ps))"
  let ?M = "Max ?S"
  from assms have g: "guarded ?M (length a) = ?M" "3 \<le> ?M" "length a \<le> 4 \<longrightarrow> ?M = length a"
    by (auto simp: guarded_def split: if_splits)
  have "?M \<in> ?S"
    by (rule Max_in) auto
  with g(2) obtain p where "p \<in> set ps" "?M = commonPrefixLength a (g p)"
    by auto
  with g show ?thesis by metis
qed

lemma message_index_shared:
  "fst (forkDedup st s) = 0 \<or>
   (\<exists>p. sharedWith st s p (messageSignatures s) (messageSignatures p) (fst (forkDedup st s)))"
proof (cases "parentSession st s")
  case (Some q)
  then have "sharedWith st s q (messageSignatures s) (messageSignatures q) (fst (forkDedup st s))"
    using commonPrefix_shared [of "messageSignatures s" "messageSignatures q"]
    by (simp add: forkDedup_def sharedWith_def)
  then show ?thesis by blast
next
  case None
  show ?thesis
  proof (cases "cwd s")
    case N: None
    with None show ?thesis by (simp add: forkDedup_def)
  next
    case (Some c)
    show ?thesis
    proof (cases "truthy (Some c)")
      case False
      with None Some show ?thesis by (simp add: forkDedup_def)
    next
      case True
      note h = forkDedup_heuristic [OF None Some True]
      show ?thesis
      proof (cases "fst (forkDedup st s) = 0")
        case False
        then have "0 < guarded (Max (insert 0 (commonPrefixLength (messageSignatures s) `
                 set (map messageSignatures (previousSessions st c)))))
             (length (messageSignatures s))"
          by (simp add: h)
        from guarded_candidate [OF this] obtain p where p: "p \<in> set (previousSessions st c)"
          and e: "fst (forkDedup st s)
                    = commonPrefixLength (messageSignatures s) (messageSignatures p)"
          and g: "3 \<le> commonPrefixLength (messageSignatures s) (messageSignatures p)"
                 "length (messageSignatures s) \<le> 4 \<longrightarrow>
                    commonPrefixLength (messageSignatures s) (messageSignatures p)
                      = length (messageSignatures s)"
          by (auto simp: h)
        have "sharedWith st s p (messageSignatures s) (messageSignatures p)
                (fst (forkDedup st s))"
          unfolding e sharedWith_def
          using commonPrefix_shared [of "messageSignatures s" "messageSignatures p"] None Some
            True p g
          by simp
        then show ?thesis by blast
      qed simp
    qed
  qed
qed

lemma token_index_shared:
  "fst (snd (forkDedup st s)) = 0 \<or>
   (\<exists>p. sharedWith st s p (tokenSignatures s) (tokenSignatures p) (fst (snd (forkDedup st s))))"
proof (cases "parentSession st s")
  case (Some q)
  then have "sharedWith st s q (tokenSignatures s) (tokenSignatures q)
               (fst (snd (forkDedup st s)))"
    using commonPrefix_shared [of "tokenSignatures s" "tokenSignatures q"]
    by (simp add: forkDedup_def sharedWith_def)
  then show ?thesis by blast
next
  case None
  show ?thesis
  proof (cases "cwd s")
    case N: None
    with None show ?thesis by (simp add: forkDedup_def)
  next
    case (Some c)
    show ?thesis
    proof (cases "truthy (Some c)")
      case False
      with None Some show ?thesis by (simp add: forkDedup_def)
    next
      case True
      note h = forkDedup_heuristic [OF None Some True]
      show ?thesis
      proof (cases "fst (snd (forkDedup st s)) = 0")
        case False
        then have "0 < guarded (Max (insert 0 (commonPrefixLength (tokenSignatures s) `
                 set (map tokenSignatures (previousSessions st c)))))
             (length (tokenSignatures s))"
          by (simp add: h)
        from guarded_candidate [OF this] obtain p where p: "p \<in> set (previousSessions st c)"
          and e: "fst (snd (forkDedup st s))
                    = commonPrefixLength (tokenSignatures s) (tokenSignatures p)"
          and g: "3 \<le> commonPrefixLength (tokenSignatures s) (tokenSignatures p)"
                 "length (tokenSignatures s) \<le> 4 \<longrightarrow>
                    commonPrefixLength (tokenSignatures s) (tokenSignatures p)
                      = length (tokenSignatures s)"
          by (auto simp: h)
        have "sharedWith st s p (tokenSignatures s) (tokenSignatures p)
                (fst (snd (forkDedup st s)))"
          unfolding e sharedWith_def
          using commonPrefix_shared [of "tokenSignatures s" "tokenSignatures p"] None Some
            True p g
          by simp
        then show ?thesis by blast
      qed simp
    qed
  qed
qed

text \<open>
  C1, as stated, fails: records are only dropped as a leading run shared
  with one earlier session, never looked up by signature. A single log with the same
  delta twice yields two events with one signature; and in the run over the three files
  the four messages of C, which carry the signatures of the messages of A and B, are
  counted again: 8 messages are counted and 4 distinct message signatures exist.
\<close>

theorem distinct_signatures_counterexample:
  "\<not> distinct (map createTokenEventSignature
                 (mergedEvents (collectCodexUsageData exampleRuntime
                    [(''a.jsonl'', repeatedDelta)]))) \<and>
   length (remdups (concat (map messageSignatures (sortedSessions exampleRuntime threeFiles))))
     = 4 \<and>
   totalMessages (collectCodexUsageData exampleRuntime threeFiles) = 8"
proof -
  have "\<not> distinct (map createTokenEventSignature
                 (mergedEvents (collectCodexUsageData exampleRuntime
                    [(''a.jsonl'', repeatedDelta)])))"
    by code_simp
  moreover have "length (remdups (concat (map messageSignatures
                   (sortedSessions exampleRuntime threeFiles)))) = 4"
    unfolding sortedSessions_threeFiles
    by (simp add: sessionA_eval sessionB_eval sessionC_eval)
  moreover have "totalMessages (collectCodexUsageData exampleRuntime threeFiles) = 8"
    by (simp add: collect_threeFiles)
  ultimately show ?thesis by simp
qed

text \<open>
  C1, amended. The merge leaves out of a session exactly a leading run of \<open>t\<close> usage
  events and a leading run of \<open>m\<close> user messages, and adds every other record of the
  session to the merged events and to the message counts. The number \<open>t\<close> is the largest
  \<open>k\<close> such that the first \<open>k\<close> token signatures of the session are those of its explicit
  parent, or, for a session without a matching parent, those of a candidate of its
  directory with \<open>k\<close> at least 3 and, for a sequence of at most 4, equal to its length; it
  is 0 when there is no such \<open>k\<close>. The number \<open>m\<close> is that of the message signatures. So
  a leading run of records copied verbatim from such a session is not added again, and
  records are not otherwise identified by their signatures.
\<close>

theorem copied_prefix_contributed_once:
  "\<exists>m t. mergedEvents (mergeSession rt st s) = mergedEvents st @ drop t (events s) \<and>
          totalMessages (mergeSession rt st s)
            = totalMessages st + int (length (drop m (userMessages s))) \<and>
          dailyActivity (mergeSession rt st s)
            = dailyActivity (foldl (countMessage rt) st (drop m (userMessages s))) \<and>
          (t = 0 \<or> (\<exists>p. sharedWith st s p (tokenSignatures s) (tokenSignatures p) t)) \<and>
          (\<forall>p k. sharedWith st s p (tokenSignatures s) (tokenSignatures p) k \<longrightarrow> k \<le> t) \<and>
          (m = 0 \<or> (\<exists>p. sharedWith st s p (messageSignatures s) (messageSignatures p) m)) \<and>
          (\<forall>p k. sharedWith st s p (messageSignatures s) (messageSignatures p) k \<longrightarrow> k \<le> m)"
proof (intro exI conjI allI impI)
  show "mergedEvents (mergeSession rt st s)
          = mergedEvents st @ drop (fst (snd (forkDedup st s))) (events s)"
    by (rule mergeSession_events)
  show "totalMessages (mergeSession rt st s)
          = totalMessages st + int (length (drop (fst (forkDedup st s)) (userMessages s)))"
    by (rule mergeSession_messages)
  show "dailyActivity (mergeSession rt st s)
          = dailyActivity (foldl (countMessage rt) st (drop (fst (forkDedup st s)) (userMessages s)))"
    by (rule mergeSession_activity)
  show "fst (snd (forkDedup st s)) = 0 \<or>
        (\<exists>p. sharedWith st s p (tokenSignatures s) (tokenSignatures p)
                (fst (snd (forkDedup st s))))"
    by (rule token_index_shared)
  show "fst (forkDedup st s) = 0 \<or>
        (\<exists>p. sharedWith st s p (messageSignatures s) (messageSignatures p)
                (fst (forkDedup st s)))"
    by (rule message_index_shared)
  show "k \<le> fst (snd (forkDedup st s))"
    if "sharedWith st s p (tokenSignatures s) (tokenSignatures p) k" for p k
    using that by (rule token_index_covers)
  show "k \<le> fst (forkDedup st s)"
    if "sharedWith st s p (messageSignatures s) (messageSignatures p) k" for p k
    using that by (rule message_index_covers)
qed

theorem copied_prefix_contributed_once_witness:
  "sharedWith afterA sessionB (sigsOf sessionA) (tokenSignatures sessionB)
     (tokenSignatures (sigsOf sessionA)) 1 \<and>
   sharedWith afterA sessionB (sigsOf sessionA) (messageSignatures sessionB)
     (messageSignatures (sigsOf sessionA)) 3 \<and>
   mergedEvents (mergeSession exampleRuntime afterA sessionB)
     = mergedEvents afterA @ drop 1 (events sessionB) \<and>
   totalMessages (mergeSession exampleRuntime afterA sessionB)
     = totalMessages afterA + int (length (drop 3 (userMessages sessionB))) \<and>
   length (userMessages sessionC) = 4 \<and>
   totalMessages (mergeSession exampleRuntime afterAB sessionC) = totalMessages afterAB + 4"
proof -
  have p: "parentSession afterA sessionB = Some (sigsOf sessionA)"
    by (simp add: parentSession_def afterA_eval sessionB_eval)
  have h: "sharedWith afterA sessionB (sigsOf sessionA) (tokenSignatures sessionB)
             (tokenSignatures (sigsOf sessionA)) 1"
      "sharedWith afterA sessionB (sigsOf sessionA) (messageSignatures sessionB)
         (messageSignatures (sigsOf sessionA)) 3"
    unfolding sharedWith_def p
    by (simp_all add: sigsOf_def sessionA_eval sessionB_eval)
  have hi: "k \<le> 1" if "sharedWith afterA sessionB q (tokenSignatures sessionB)
                            (tokenSignatures q) k" for q k
    using that unfolding sharedWith_def p
    by (auto simp: sigsOf_def sessionA_eval)
  have hj: "k \<le> 3" if "sharedWith afterA sessionB q (messageSignatures sessionB)
                            (messageSignatures q) k" for q k
    using that unfolding sharedWith_def p
    by (auto simp: sigsOf_def sessionA_eval)
  from copied_prefix_contributed_once [of exampleRuntime afterA sessionB]
  obtain m t where
    b: "mergedEvents (mergeSession exampleRuntime afterA sessionB)
          = mergedEvents afterA @ drop t (events sessionB)"
       "totalMessages (mergeSession exampleRuntime afterA sessionB)
          = totalMessages afterA + int (length (drop m (userMessages sessionB)))"
    and tu: "t = 0 \<or> (\<exists>q. sharedWith afterA sessionB q (tokenSignatures sessionB)
                            (tokenSignatures q) t)"
    and tl: "\<forall>q k. sharedWith afterA sessionB q (tokenSignatures sessionB)
                     (tokenSignatures q) k \<longrightarrow> k \<le> t"
    and mu: "m = 0 \<or> (\<exists>q. sharedWith afterA sessionB q (messageSignatures sessionB)
                            (messageSignatures q) m)"
    and ml: "\<forall>q k. sharedWith afterA sessionB q (messageSignatures sessionB)
                     (messageSignatures q) k \<longrightarrow> k \<le> m"
    by blast
  have "t \<le> 1" using tu hi by auto
  moreover have "1 \<le> t" using tl h(1) by blast
  ultimately have t: "t = 1" by simp
  have "m \<le> 3" using mu hj by auto
  moreover have "3 \<le> m" using ml h(2) by blast
  ultimately have m: "m = 3" by simp
  have pc: "parentSession afterAB sessionC = None"
    by (simp add: parentSession_def sessionC_eval)
  have pv: "previousSessions afterAB (JStr ''/proj'') = [sigsOf sessionA]"
    by (simp add: previousSessions_def afterAB_eval)
  have cw: "cwd sessionC = Some (JStr ''/proj'')"
    by (simp add: sessionC_eval)
  have lm: "length (messageSignatures sessionC) = 4"
      "length (messageSignatures (sigsOf sessionA)) = 3"
    by (simp_all add: sigsOf_def sessionA_eval sessionC_eval)
  have nc: "\<not> sharedWith afterAB sessionC q (messageSignatures sessionC)
               (messageSignatures q) k" for q k
    using pc pv cw lm by (auto simp: sharedWith_def)
  have lc: "length (userMessages sessionC) = 4"
    by (simp add: sessionC_eval)
  from copied_prefix_contributed_once [of exampleRuntime afterAB sessionC]
  obtain m' where
    "totalMessages (mergeSession exampleRuntime afterAB sessionC)
       = totalMessages afterAB + int (length (drop m' (userMessages sessionC)))"
    "m' = 0 \<or> (\<exists>q. sharedWith afterAB sessionC q (messageSignatures sessionC)
                     (messageSignatures q) m')"
    by blast
  with nc lc have c: "totalMessages (mergeSession exampleRuntime afterAB sessionC)
                        = totalMessages afterAB + 4"
    by simp
  show ?thesis
    using h b [unfolded t m] lc c by simp
qed

section \<open>Messages and daily activity\<close>

lemma activityGet_set:
  "activityGet (activitySet m k v) k' = (if k' = k then v else activityGet m k')"
  by (induction m k v rule: activitySet.induct) (auto simp: activityGet_def)

lemma activitySet_sum:
  "sum_list (map snd (activitySet m k (activityGet m k + 1))) = sum_list (map snd m) + 1"
proof (induction m)
  case Nil
  then show ?case by (simp add: activityGet_def)
next
  case (Cons a m)
  obtain k' c where a: "a = (k', c)" by (cases a)
  show ?case
  proof (cases "k' = k")
    case True
    then show ?thesis by (simp add: a activityGet_def)
  next
    case False
    then have "activityGet (a # m) k = activityGet m k"
      by (auto simp: a activityGet_def)
    then show ?thesis using False Cons by (simp add: a)
  qed
qed

lemma countMessage_counted: "counted st \<Longrightarrow> counted (countMessage rt st m)"
  by (simp add: counted_def countMessage_def Let_def activitySet_sum)

lemma countMessages_counted: "counted st \<Longrightarrow> counted (foldl (countMessage rt) st ms)"
  by (induction ms arbitrary: st) (simp_all add: countMessage_counted)

lemma mergeSession_counted:
  assumes "counted st"
  shows "counted (mergeSession rt st s)"
proof -
  let ?ms = "drop (fst (forkDedup st s)) (userMessages s)"
  have "counted (foldl (countMessage rt) st ?ms)"
    using assms by (rule countMessages_counted)
  then show ?thesis
    by (simp add: counted_def mergeSession_activity mergeSession_messages countMessages_fields)
qed

lemma mergeSessions_counted: "counted st \<Longrightarrow> counted (foldl (mergeSession rt) st ss)"
  by (induction ss arbitrary: st) (simp_all add: mergeSession_counted)

text \<open>
  C10. The message total of a run is the sum of the per-day counts of its daily
  activity: a retained message adds one to the total and one to the count of the day of
  its own timestamp, and to no other day.
\<close>

theorem messages_equal_activity:
  "totalMessages (collectCodexUsageData rt files)
     = sum_list (map snd (dailyActivity (collectCodexUsageData rt files))) \<and>
   totalMessages (countMessage rt st m) = totalMessages st + 1 \<and>
   activityGet (dailyActivity (countMessage rt st m)) key
     = activityGet (dailyActivity st) key
       + (if key = formatDateKey rt (dateParse rt (msgTimestamp m)) then 1 else 0)"
proof -
  have "counted (initialMergeState (length files))"
    by (simp add: counted_def initialMergeState_def)
  then have "counted (foldl (mergeSession rt) (initialMergeState (length files))
                        (sortedSessions rt files))"
    by (rule mergeSessions_counted)
  then show ?thesis
    by (simp add: counted_def collectCodexUsageData_def Let_def countMessage_def activityGet_set)
qed

theorem messages_equal_activity_witness:
  "dailyActivity (collectCodexUsageData exampleRuntime threeFiles) = [(''1970-01-01'', 8)] \<and>
   totalMessages (collectCodexUsageData exampleRuntime threeFiles) = 8"
proof -
  have "dailyActivity (collectCodexUsageData exampleRuntime threeFiles) = [(''1970-01-01'', 8)]"
    by (simp add: collect_threeFiles)
  then show ?thesis
    using messages_equal_activity [where rt = exampleRuntime and files = threeFiles]
    by simp
qed

section \<open>Sorting\<close>

lemma set_insertBy: "set (insertBy cmp x ys) = insert x (set ys)"
  by (induction ys) auto

lemma mset_insertBy: "mset (insertBy cmp x ys) = add_mset x (mset ys)"
  by (induction ys) auto

lemma mset_sortBy: "mset (sortBy cmp xs) = mset xs"
  by (induction xs) (simp_all add: sortBy_def mset_insertBy)

lemma set_sortBy: "set (sortBy cmp xs) = set xs"
  using mset_sortBy [of cmp xs] by (metis set_mset_mset)

text \<open>On a set where the comparator decides a total and transitive relation, inserting
  keeps a list sorted for that relation.\<close>

lemma sorted_insertBy:
  assumes tot: "\<And>a b. a \<in> S \<Longrightarrow> b \<in> S \<Longrightarrow> le a b \<or> le b a"
      and trans: "\<And>a b c. a \<in> S \<Longrightarrow> b \<in> S \<Longrightarrow> c \<in> S \<Longrightarrow> le a b \<Longrightarrow> le b c \<Longrightarrow> le a c"
      and le: "\<And>a b. a \<in> S \<Longrightarrow> b \<in> S \<Longrightarrow> le a b = (sortCompare cmp a b \<le> 0)"
      and x: "x \<in> S"
  shows "set ys \<subseteq> S \<Longrightarrow> sorted_wrt le ys \<Longrightarrow> sorted_wrt le (insertBy cmp x ys)"
proof (induction ys)
  case Nil
  then show ?case by simp
next
  case (Cons y ys)
  from Cons.prems have y: "y \<in> S" and ys: "set ys \<subseteq> S"
    and yz: "\<forall>z\<in>set ys. le y z" and s: "sorted_wrt le ys"
    by simp_all
  show ?case
  proof (cases "sortCompare cmp x y \<le> 0")
    case True
    then have xy: "le x y" using le [OF x y] by simp
    have "\<forall>z\<in>set ys. le x z"
    proof
      fix z assume z: "z \<in> set ys"
      with ys have "z \<in> S" by blast
      from trans [OF x y this xy] yz z show "le x z" by blast
    qed
    then show ?thesis using True xy yz s by simp
  next
    case False
    then have "\<not> le x y" using le [OF x y] by simp
    then have yx: "le y x" using tot [OF x y] by blast
    have "sorted_wrt le (insertBy cmp x ys)"
      using Cons.IH [OF ys s] .
    moreover have "\<forall>z\<in>set (insertBy cmp x ys). le y z"
      using yx yz by (simp add: set_insertBy)
    ultimately show ?thesis using False by simp
  qed
qed

lemma sorted_sortBy:
  assumes tot: "\<And>a b. a \<in> S \<Longrightarrow> b \<in> S \<Longrightarrow> le a b \<or> le b a"
      and trans: "\<And>a b c. a \<in> S \<Longrightarrow> b \<in> S \<Longrightarrow> c \<in> S \<Longrightarrow> le a b \<Longrightarrow> le b c \<Longrightarrow> le a c"
      and le: "\<And>a b. a \<in> S \<Longrightarrow> b \<in> S \<Longrightarrow> le a b = (sortCompare cmp a b \<le> 0)"
  shows "set xs \<subseteq> S \<Longrightarrow> sorted_wrt le (sortBy cmp xs)"
proof (induction xs)
  case Nil
  then show ?case by (simp add: sortBy_def)
next
  case (Cons x xs)
  then have x: "x \<in> S" and xs: "set xs \<subseteq> S" by simp_all
  have "sorted_wrt le (insertBy cmp x (sortBy cmp xs))"
  proof (rule sorted_insertBy [where S = S])
    show "set (sortBy cmp xs) \<subseteq> S" using xs by (simp add: set_sortBy)
    show "sorted_wrt le (sortBy cmp xs)" using Cons.IH [OF xs] .
  qed (use tot trans le x in blast)+
  then show ?case by (simp add: sortBy_def)
qed

subsection \<open>Sessions\<close>

lemma valid_date_cases:
  assumes "validSessionDate s"
  obtains "sessionDate s = None" | x where "sessionDate s = Some (Num x)"
  using assms unfolding validSessionDate_def
  by (cases "sessionDate s") (auto intro: jsnum.exhaust)

text \<open>On sessions whose dates are valid, \<open>compareSessionsByDate\<close> decides the order of
  the specification.\<close>

lemma compare_sessions_before:
  assumes "validSessionDate a" "validSessionDate b"
  shows "sessionBefore rt a b = (sortCompare (compareSessionsByDate rt) a b \<le> 0)"
  using assms(1)
proof (cases rule: valid_date_cases)
  case 1
  from assms(2) show ?thesis
    by (cases rule: valid_date_cases)
       (simp_all add: 1 sessionBefore_def compareSessionsByDate_def sortCompare_def)
next
  case (2 x)
  from assms(2) show ?thesis
    by (cases rule: valid_date_cases)
       (auto simp: 2 sessionBefore_def compareSessionsByDate_def sortCompare_def)
qed

lemma sessionBefore_total:
  assumes "validSessionDate a" "validSessionDate b"
      and "localeCompare rt (filePath a) (filePath b) \<le> 0 \<or>
           localeCompare rt (filePath b) (filePath a) \<le> 0"
  shows "sessionBefore rt a b \<or> sessionBefore rt b a"
  using assms(1)
proof (cases rule: valid_date_cases)
  case 1
  from assms(2) show ?thesis
    by (cases rule: valid_date_cases) (use assms(3) in \<open>auto simp: 1 sessionBefore_def\<close>)
next
  case (2 x)
  from assms(2) show ?thesis
    by (cases rule: valid_date_cases) (use assms(3) in \<open>auto simp: 2 sessionBefore_def\<close>)
qed

lemma sessionBefore_trans:
  assumes "validSessionDate a" "validSessionDate b" "validSessionDate c"
      and lc: "localeCompare rt (filePath a) (filePath b) \<le> 0 \<and>
           localeCompare rt (filePath b) (filePath c) \<le> 0 \<longrightarrow>
           localeCompare rt (filePath a) (filePath c) \<le> 0"
      and ab: "sessionBefore rt a b" and bc: "sessionBefore rt b c"
  shows "sessionBefore rt a c"
proof -
  consider (n) "sessionDate a = None" | (s) x where "sessionDate a = Some (Num x)"
    using assms(1) by (rule valid_date_cases)
  then show ?thesis
  proof cases
    case n
    have bn: "sessionDate b = None"
      by (rule valid_date_cases [OF assms(2)]) (use ab n in \<open>auto simp: sessionBefore_def\<close>)
    have cn: "sessionDate c = None"
      by (rule valid_date_cases [OF assms(3)]) (use bc bn in \<open>auto simp: sessionBefore_def\<close>)
    show ?thesis using ab bc lc by (simp add: n bn cn sessionBefore_def)
  next
    case s
    from assms(3) show ?thesis
    proof (cases rule: valid_date_cases)
      case 1
      then show ?thesis by (simp add: s sessionBefore_def)
    next
      case c: (2 z)
      from assms(2) show ?thesis
      proof (cases rule: valid_date_cases)
        case 1
        with bc c show ?thesis by (simp add: sessionBefore_def)
      next
        case b: (2 y)
        show ?thesis using ab bc lc by (auto simp: s b c sessionBefore_def)
      qed
    qed
  qed
qed

lemma parseSession_filePath: "filePath (parseSession rt path lines) = path"
  by (simp add: parseSession_def Let_def)

lemma sessions_sorted:
  assumes valid: "\<forall>f\<in>set files. validSessionDate (parseSession rt (fst f) (snd f))"
      and lc: "consistentOn (map fst files) (localeCompare rt)"
  shows "sorted_wrt (sessionBefore rt) (sortedSessions rt files)"
proof -
  let ?S = "set (map (\<lambda>(path, lines). parseSession rt path lines) files)"
  have v: "validSessionDate s" and p: "filePath s \<in> set (map fst files)" if "s \<in> ?S" for s
    using that valid by (force simp: parseSession_filePath)+
  have tot: "localeCompare rt x y \<le> 0 \<or> localeCompare rt y x \<le> 0"
    if "x \<in> set (map fst files)" "y \<in> set (map fst files)" for x y
    using lc that unfolding consistentOn_def by blast
  have tr: "localeCompare rt x y \<le> 0 \<and> localeCompare rt y z \<le> 0
              \<longrightarrow> localeCompare rt x z \<le> 0"
    if "x \<in> set (map fst files)" "y \<in> set (map fst files)" "z \<in> set (map fst files)"
    for x y z
    using lc that unfolding consistentOn_def by blast
  show ?thesis
    unfolding sortedSessions_def
  proof (rule sorted_sortBy [where S = ?S])
    fix a b assume "a \<in> ?S" "b \<in> ?S"
    then show "sessionBefore rt a b \<or> sessionBefore rt b a"
      by (intro sessionBefore_total v tot p)
  next
    fix a b c
    assume "a \<in> ?S" "b \<in> ?S" "c \<in> ?S" "sessionBefore rt a b" "sessionBefore rt b c"
    then show "sessionBefore rt a c"
      by (intro sessionBefore_trans [of a b c] v tr p)
  next
    fix a b assume "a \<in> ?S" "b \<in> ?S"
    then show "sessionBefore rt a b = (sortCompare (compareSessionsByDate rt) a b \<le> 0)"
      by (intro compare_sessions_before v)
  qed simp
qed

subsection \<open>Events\<close>

lemma compare_events_before:
  assumes "eventTime rt a \<noteq> None" "eventTime rt b \<noteq> None"
  shows "eventBefore rt a b = (sortCompare (compareEvents rt) a b \<le> 0)"
  using assms
  by (auto simp: eventBefore_def eventTime_def compareEvents_def sortCompare_def
        split: jsnum.splits)

lemma events_sorted:
  assumes "\<forall>e\<in>set es. eventTime rt e \<noteq> None"
  shows "sorted_wrt (eventBefore rt) (sortBy (compareEvents rt) es)"
proof (rule sorted_sortBy [where S = "set es"])
  fix a b assume "a \<in> set es" "b \<in> set es"
  with assms have "eventTime rt a \<noteq> None" "eventTime rt b \<noteq> None" by auto
  then show "eventBefore rt a b \<or> eventBefore rt b a"
    by (auto simp: eventBefore_def)
next
  fix a b c
  assume "a \<in> set es" "b \<in> set es" "c \<in> set es" "eventBefore rt a b" "eventBefore rt b c"
  then show "eventBefore rt a c"
    by (auto simp: eventBefore_def split: option.splits)
next
  fix a b assume "a \<in> set es" "b \<in> set es"
  with assms show "eventBefore rt a b = (sortCompare (compareEvents rt) a b \<le> 0)"
    by (intro compare_events_before) auto
qed simp

lemma invalidDate_sessions:
  "map (\<lambda>(path, lines). parseSession exampleRuntime path lines) invalidDateFiles
     = [datedSession ''a.jsonl'' (Num 1000) (JNum 20) 1,
        datedSession ''b.jsonl'' NaN (JStr ''bad'') 2,
        datedSession ''c.jsonl'' (Num 500) (JNum 10) 3]"
  by code_simp

lemma invalidDate_sorted:
  "sortedSessions exampleRuntime invalidDateFiles
     = [datedSession ''a.jsonl'' (Num 1000) (JNum 20) 1,
        datedSession ''b.jsonl'' NaN (JStr ''bad'') 2,
        datedSession ''c.jsonl'' (Num 500) (JNum 10) 3]"
  unfolding sortedSessions_def invalidDate_sessions
  by (simp add: sortBy_def sortCompare_def compareSessionsByDate_def datedSession_def)

lemma invalidDate_events:
  "mergedEvents (collectCodexUsageData exampleRuntime invalidDateFiles)
     = [datedEvent (JNum 20) 1, datedEvent (JStr ''bad'') 2, datedEvent (JNum 10) 3]"
  unfolding collectCodexUsageData_def invalidDate_sorted
  by (simp add: Let_def mergeSession_events forkDedup_def parentSession_def datedSession_def
        datedEvent_def initialMergeState_def sortBy_def sortCompare_def compareEvents_def
        exampleRuntime_def)

text \<open>
  C8, as stated, fails: a session timestamp that is no date is kept as an
  invalid date and an event timestamp is not checked, the comparators then return \<open>NaN\<close>,
  and the sort leaves such elements where they are. Of three files dated 1000, by a
  string that is no date, and 500, the session dated 500 reaches the merge loop after the
  one dated 1000; their events at 20, at a string that is no date, and at 10 stay in
  that order in the merged events.
\<close>

theorem invalid_date_counterexample:
  "map fst invalidDateFiles = [''a.jsonl'', ''b.jsonl'', ''c.jsonl''] \<and>
   map sessionDate (sortedSessions exampleRuntime invalidDateFiles)
     = [Some (Num 1000), Some NaN, Some (Num 500)] \<and>
   \<not> sorted_wrt (sessionBefore exampleRuntime) (sortedSessions exampleRuntime invalidDateFiles) \<and>
   map timestamp (mergedEvents (collectCodexUsageData exampleRuntime invalidDateFiles))
     = [JNum 20, JStr ''bad'', JNum 10] \<and>
   map (eventTime exampleRuntime)
     (mergedEvents (collectCodexUsageData exampleRuntime invalidDateFiles))
     = [Some 20, None, Some 10] \<and>
   \<not> sorted_wrt (eventBefore exampleRuntime)
       (mergedEvents (collectCodexUsageData exampleRuntime invalidDateFiles))"
  unfolding invalidDate_sorted invalidDate_events
  by (simp add: invalidDateFiles_def datedSession_def datedEvent_def sessionBefore_def
        eventBefore_def eventTime_def exampleRuntime_def)

text \<open>
  C8, amended. When every session date is a valid date and \<open>localeCompare\<close> orders the
  file paths consistently, the sessions reach the merge loop in the order of the
  specification: earliest session timestamp ascending, sessions without a timestamp after
  all others, the file path as the tiebreak; they are the parsed sessions, whatever the
  order of the files. When every event timestamp is a valid date, the merged events of
  the run are in ascending order of time; they are the events that the merge loop
  collected.
\<close>

theorem chronological_order:
  "((\<forall>f\<in>set files. validSessionDate (parseSession rt (fst f) (snd f))) \<and>
    consistentOn (map fst files) (localeCompare rt) \<longrightarrow>
      sorted_wrt (sessionBefore rt) (sortedSessions rt files)) \<and>
   mset (sortedSessions rt files)
     = mset (map (\<lambda>(path, lines). parseSession rt path lines) files) \<and>
   ((\<forall>e\<in>set (mergedEvents (collectCodexUsageData rt files)). eventTime rt e \<noteq> None) \<longrightarrow>
      sorted_wrt (eventBefore rt) (mergedEvents (collectCodexUsageData rt files))) \<and>
   mset (mergedEvents (collectCodexUsageData rt files))
     = mset (mergedEvents (foldl (mergeSession rt) (initialMergeState (length files))
                             (sortedSessions rt files)))"
proof (intro conjI impI)
  assume "(\<forall>f\<in>set files. validSessionDate (parseSession rt (fst f) (snd f))) \<and>
    consistentOn (map fst files) (localeCompare rt)"
  then show "sorted_wrt (sessionBefore rt) (sortedSessions rt files)"
    using sessions_sorted by blast
next
  show "mset (sortedSessions rt files)
          = mset (map (\<lambda>(path, lines). parseSession rt path lines) files)"
    by (simp add: sortedSessions_def mset_sortBy)
next
  assume "\<forall>e\<in>set (mergedEvents (collectCodexUsageData rt files)). eventTime rt e \<noteq> None"
  then have "\<forall>e\<in>set (mergedEvents (foldl (mergeSession rt) (initialMergeState (length files))
                             (sortedSessions rt files))). eventTime rt e \<noteq> None"
    by (simp add: collectCodexUsageData_def Let_def set_sortBy)
  from events_sorted [OF this]
  show "sorted_wrt (eventBefore rt) (mergedEvents (collectCodexUsageData rt files))"
    by (simp add: collectCodexUsageData_def Let_def)
next
  show "mset (mergedEvents (collectCodexUsageData rt files))
     = mset (mergedEvents (foldl (mergeSession rt) (initialMergeState (length files))
                             (sortedSessions rt files)))"
    by (simp add: collectCodexUsageData_def Let_def mset_sortBy)
qed

theorem chronological_order_witness:
  "list_all (\<lambda>f. validSessionDate (parseSession exampleRuntime (fst f) (snd f))) threeFiles \<and>
   consistentOn (map fst threeFiles) (localeCompare exampleRuntime) \<and>
   map fst threeFiles = [''b.jsonl'', ''a.jsonl'', ''c.jsonl''] \<and>
   map filePath (sortedSessions exampleRuntime threeFiles)
     = [''a.jsonl'', ''b.jsonl'', ''c.jsonl''] \<and>
   sorted_wrt (sessionBefore exampleRuntime) (sortedSessions exampleRuntime threeFiles) \<and>
   list_all (\<lambda>e. eventTime exampleRuntime e \<noteq> None)
     (mergedEvents (collectCodexUsageData exampleRuntime threeFiles)) \<and>
   map timestamp (mergedEvents (collectCodexUsageData exampleRuntime threeFiles))
     = [JNum 1004, JNum 2002] \<and>
   sorted_wrt (eventBefore exampleRuntime)
     (mergedEvents (collectCodexUsageData exampleRuntime threeFiles))"
proof -
  have v: "validSessionDate sessionA" "validSessionDate sessionB" "validSessionDate sessionC"
    by (simp_all add: validSessionDate_def sessionA_eval sessionB_eval sessionC_eval)
  have h: "list_all (\<lambda>f. validSessionDate (parseSession exampleRuntime (fst f) (snd f)))
             threeFiles"
    using v by (simp add: threeFiles_def sessionA_def sessionB_def sessionC_def)
  have c: "consistentOn (map fst threeFiles) (localeCompare exampleRuntime)"
    by code_simp
  have f: "map fst threeFiles = [''b.jsonl'', ''a.jsonl'', ''c.jsonl'']"
    by (simp add: threeFiles_def)
  have s: "map filePath (sortedSessions exampleRuntime threeFiles)
         = [''a.jsonl'', ''b.jsonl'', ''c.jsonl'']"
    unfolding sortedSessions_threeFiles
    by (simp add: sessionA_eval sessionB_eval sessionC_eval)
  have e: "list_all (\<lambda>e. eventTime exampleRuntime e \<noteq> None)
         (mergedEvents (collectCodexUsageData exampleRuntime threeFiles))"
      "map timestamp (mergedEvents (collectCodexUsageData exampleRuntime threeFiles))
         = [JNum 1004, JNum 2002]"
    unfolding collect_threeFiles
    by (simp_all add: eventTime_def exampleEvent_def exampleRuntime_def)
  show ?thesis
    using h c f s e chronological_order [where rt = exampleRuntime and files = threeFiles]
    unfolding list_all_iff by blast
qed

end
